theory Spec2Isabelle
  imports Main "HOL-Library.Sublist"
begin

section \<open>Job coordinator: ConversionHandler.cpp\<close>

text \<open>
  The three static members of \<^verbatim>\<open>ConversionHandler\<close> (ConversionHandler.cpp, lines 29-31)
  are the whole job state of the plugin.
\<close>

record ConversionHandler =
  s_currentJobId :: string
  s_conversionInProgress :: bool
  s_shouldCancel :: bool

definition initial_handler :: ConversionHandler where
  "initial_handler =
     \<lparr>s_currentJobId = [], s_conversionInProgress = False, s_shouldCancel = False\<rparr>"

text \<open>\<^verbatim>\<open>CancelConversion\<close> (lines 462-471): the returned flag and the new state.\<close>

definition CancelConversion :: "string \<Rightarrow> ConversionHandler \<Rightarrow> bool \<times> ConversionHandler" where
  "CancelConversion jobId st =
     (if \<not> s_conversionInProgress st \<or> s_currentJobId st \<noteq> jobId then (False, st)
      else (True, st\<lparr>s_shouldCancel := True\<rparr>))"

text \<open>\<^verbatim>\<open>IsConversionInProgress\<close> (lines 473-476).\<close>

definition IsConversionInProgress :: "string \<Rightarrow> ConversionHandler \<Rightarrow> bool" where
  "IsConversionInProgress jobId st \<longleftrightarrow> s_conversionInProgress st \<and> s_currentJobId st = jobId"

subsection \<open>The host (Archicad API) as seen by a conversion\<close>

text \<open>
  A host call either returns a \<^verbatim>\<open>GSErrCode\<close> or throws; the handlers of the source
  distinguish \<^verbatim>\<open>std::exception\<close> (with its \<^verbatim>\<open>what()\<close>) from anything else.
\<close>

datatype exn = StdException string | UnknownException

datatype 'a outcome = Returns 'a | Throws exn

definition NoError :: int where
  "NoError = 0"

datatype file_type = PlanFile | IfcFile

datatype host_call =
    FileGetStatus string
  | ProjectClose
  | ProjectOpen file_type string
  | GetIFCExportTranslatorsList
  | ProjectSave file_type string
  | NewProject

text \<open>
  What the host answers to the calls whose answer the conversion inspects:
  \<^verbatim>\<open>IO::File::GetStatus\<close> on the input file (with the construction of the location before it),
  \<^verbatim>\<open>ACAPI_ProjectOperation_Open\<close>, \<^verbatim>\<open>ACAPI_IFC_GetIFCExportTranslatorsList\<close> (the error code
  and the number of translators) and \<^verbatim>\<open>ACAPI_ProjectOperation_Save\<close>.
  The answers of \<^verbatim>\<open>ACAPI_ProjectOperation_Close\<close> and \<^verbatim>\<open>ACAPI_ProjectOperation_NewProject\<close>
  only select a console message (every error code and every exception of theirs is swallowed,
  lines 38-52, 99-109, 250-259), so those calls are recorded and their answers are not part of
  the record.
\<close>

record host =
  file_status :: "int outcome"
  open_project :: "int outcome"
  translators :: "(int \<times> nat) outcome"
  save_project :: "int outcome"

text \<open>
  The system a conversion runs in: the job state, the host calls made so far, and the
  observer behind the progress callback (whatever the callback writes to).
\<close>

record 'w sys =
  handler :: ConversionHandler
  host_calls :: "host_call list"
  observer :: 'w

text \<open>
  A progress callback is a \<^verbatim>\<open>std::function\<close> that may be null. A callback that is set acts on
  the observer and then returns or throws: the exception that leaves it, if any, and the
  observer it leaves.
\<close>

type_synonym 'w ProgressCallback = "(int \<Rightarrow> string \<Rightarrow> 'w \<Rightarrow> exn option \<times> 'w) option"

text \<open>
  \<^verbatim>\<open>if (onProgress) { onProgress(progress, message); }\<close>: the exception that leaves the
  statement, if any, and the system after it.
\<close>

definition notify :: "'w ProgressCallback \<Rightarrow> int \<Rightarrow> string \<Rightarrow> 'w sys \<Rightarrow> exn option \<times> 'w sys" where
  "notify onProgress progress message w =
     (case onProgress of
        None \<Rightarrow> (None, w)
      | Some f \<Rightarrow>
          (fst (f progress message (observer w)),
           w\<lparr>observer := snd (f progress message (observer w))\<rparr>))"

definition call_host :: "host_call \<Rightarrow> 'w sys \<Rightarrow> 'w sys" where
  "call_host c w = w\<lparr>host_calls := host_calls w @ [c]\<rparr>"

text \<open>\<^verbatim>\<open>std::to_string\<close> of an error code.\<close>

definition digit_char :: "nat \<Rightarrow> char" where
  "digit_char d = ''0123456789'' ! d"

fun nat_to_string :: "nat \<Rightarrow> string" where
  "nat_to_string n =
     (if n < 10 then [digit_char n]
      else nat_to_string (n div 10) @ [digit_char (n mod 10)])"

declare nat_to_string.simps [simp del]

definition to_string :: "int \<Rightarrow> string" where
  "to_string i = (if i < 0 then CHR ''-'' # nat_to_string (nat (- i)) else nat_to_string (nat i))"

text \<open>
  How control leaves a piece of the \<^verbatim>\<open>try\<close> block, with the system it leaves: \<^verbatim>\<open>Returns success\<close>
  when it goes on to the label \<^verbatim>\<open>error\<close> (by \<^verbatim>\<open>goto error\<close> or at the end of the block) with that
  value of \<^verbatim>\<open>success\<close>, \<^verbatim>\<open>Throws e\<close> when the exception \<^verbatim>\<open>e\<close> is on its way to the handlers
  of the block.

  \<^verbatim>\<open>on_progress\<close> is a call of the callback inside the block, followed by the rest of the block
  if the callback returns; \<^verbatim>\<open>fail\<close> is the pattern
  \<^verbatim>\<open>if (onProgress) { onProgress(0, errorMsg); } goto error;\<close>.
\<close>

definition on_progress ::
  "'w ProgressCallback \<Rightarrow> int \<Rightarrow> string \<Rightarrow> 'w sys \<Rightarrow> ('w sys \<Rightarrow> bool outcome \<times> 'w sys)
     \<Rightarrow> bool outcome \<times> 'w sys" where
  "on_progress onProgress percent message w rest =
     (case notify onProgress percent message w of
        (None, w') \<Rightarrow> rest w'
      | (Some e, w') \<Rightarrow> (Throws e, w'))"

definition fail :: "'w ProgressCallback \<Rightarrow> string \<Rightarrow> 'w sys \<Rightarrow> bool outcome \<times> 'w sys" where
  "fail onProgress errorMsg w = on_progress onProgress 0 errorMsg w (\<lambda>w'. (Returns False, w'))"

text \<open>
  The body of the \<^verbatim>\<open>try\<close> block of \<^verbatim>\<open>ConvertPlnToIfc\<close> (lines 77-233). The handlers around
  \<^verbatim>\<open>ACAPI_ProjectOperation_Open\<close> and \<^verbatim>\<open>ACAPI_ProjectOperation_Save\<close> (lines 125-141, 198-214)
  are inside the block, so an exception of the callback they call is on its way to the
  handlers of the block like any other.
\<close>

definition ConvertPlnToIfc_block ::
  "string \<Rightarrow> string \<Rightarrow> 'w ProgressCallback \<Rightarrow> host \<Rightarrow> 'w sys \<Rightarrow> bool outcome \<times> 'w sys" where
  "ConvertPlnToIfc_block plnPath outputPath onProgress h w =
     (let w1 = call_host (FileGetStatus plnPath) w in
      case file_status h of
        Throws e \<Rightarrow> (Throws e, w1)
      | Returns status \<Rightarrow>
          if status \<noteq> NoError
          then fail onProgress ''Error: Cannot access .pln file'' w1
          else
            on_progress onProgress 20 ''Closing current project'' w1 (\<lambda>w2.
            on_progress onProgress 30 ''Opening .pln project'' (call_host ProjectClose w2) (\<lambda>w4.
            let w5 = call_host (ProjectOpen PlanFile plnPath) w4
            in case open_project h of
                 Throws (StdException what) \<Rightarrow>
                   fail onProgress (''Exception opening project: '' @ what) w5
               | Throws UnknownException \<Rightarrow>
                   fail onProgress ''Unknown exception opening project'' w5
               | Returns err \<Rightarrow>
                   if err \<noteq> NoError
                   then fail onProgress (''Error opening .pln file. Code: '' @ to_string err) w5
                   else
                     on_progress onProgress 50 ''Preparing IFC export'' w5 (\<lambda>w6.
                     let w7 = call_host GetIFCExportTranslatorsList w6
                     in case translators h of
                          Throws e \<Rightarrow> (Throws e, w7)
                        | Returns (translatorErr, n) \<Rightarrow>
                            if translatorErr \<noteq> NoError \<or> n = 0
                            then fail onProgress ''Error: No IFC translators available'' w7
                            else
                              on_progress onProgress 70 ''Exporting to IFC'' w7 (\<lambda>w8.
                              let w9 = call_host (ProjectSave IfcFile outputPath) w8
                              in case save_project h of
                                   Throws (StdException what) \<Rightarrow>
                                     fail onProgress (''Exception saving IFC: '' @ what) w9
                                 | Throws UnknownException \<Rightarrow>
                                     fail onProgress ''Unknown exception saving IFC'' w9
                                 | Returns saveErr \<Rightarrow>
                                     if saveErr \<noteq> NoError
                                     then fail onProgress
                                            (''Error saving IFC file. Code: '' @ to_string saveErr) w9
                                     else
                                       on_progress onProgress 100
                                         ''Conversion completed successfully'' w9
                                         (\<lambda>w10. (Returns True, w10)))))))"

text \<open>The body of the \<^verbatim>\<open>try\<close> block of \<^verbatim>\<open>ConvertIfcToPln\<close> (lines 294-423).\<close>

definition ConvertIfcToPln_block ::
  "string \<Rightarrow> string \<Rightarrow> 'w ProgressCallback \<Rightarrow> host \<Rightarrow> 'w sys \<Rightarrow> bool outcome \<times> 'w sys" where
  "ConvertIfcToPln_block ifcPath outputPath onProgress h w =
     (let w1 = call_host (FileGetStatus ifcPath) w in
      case file_status h of
        Throws e \<Rightarrow> (Throws e, w1)
      | Returns status \<Rightarrow>
          if status \<noteq> NoError
          then fail onProgress ''Error: Cannot access IFC file'' w1
          else
            on_progress onProgress 20 ''Closing current project'' w1 (\<lambda>w2.
            on_progress onProgress 40 ''Loading IFC file'' (call_host ProjectClose w2) (\<lambda>w4.
            let w5 = call_host (ProjectOpen IfcFile ifcPath) w4
            in case open_project h of
                 Throws (StdException what) \<Rightarrow>
                   fail onProgress (''Exception opening IFC: '' @ what) w5
               | Throws UnknownException \<Rightarrow>
                   fail onProgress ''Unknown exception opening IFC'' w5
               | Returns err \<Rightarrow>
                   if err \<noteq> NoError
                   then fail onProgress (''Error opening IFC file. Code: '' @ to_string err) w5
                   else
                     on_progress onProgress 70 ''Saving as PLN file'' w5 (\<lambda>w6.
                     let w7 = call_host (ProjectSave PlanFile outputPath) w6
                     in case save_project h of
                          Throws (StdException what) \<Rightarrow>
                            fail onProgress (''Exception saving PLN: '' @ what) w7
                        | Throws UnknownException \<Rightarrow>
                            fail onProgress ''Unknown exception saving PLN'' w7
                        | Returns saveErr \<Rightarrow>
                            if saveErr \<noteq> NoError
                            then fail onProgress
                                   (''Error saving PLN file. Code: '' @ to_string saveErr) w7
                            else
                              on_progress onProgress 100 ''Conversion completed successfully'' w7
                                (\<lambda>w8. (Returns True, w8))))))"

text \<open>
  The two handlers of the \<^verbatim>\<open>try\<close> block (lines 235-245 and 425-435). They call the callback
  outside any \<^verbatim>\<open>try\<close>: if it returns, control goes on to the label \<^verbatim>\<open>error\<close> with \<^verbatim>\<open>success\<close>
  still false; if it throws, the exception leaves the function.
\<close>

definition outer_catch :: "'w ProgressCallback \<Rightarrow> exn \<Rightarrow> 'w sys \<Rightarrow> bool outcome \<times> 'w sys" where
  "outer_catch onProgress e w =
     (case notify onProgress 0
             (case e of
                StdException what \<Rightarrow> ''Error: '' @ what
              | UnknownException \<Rightarrow> ''Error: Unknown exception'') w of
        (None, w') \<Rightarrow> (Returns False, w')
      | (Some e', w') \<Rightarrow> (Throws e', w'))"

text \<open>
  The \<^verbatim>\<open>try\<close> statements (lines 77-245 and 294-435): \<^verbatim>\<open>Returns success\<close> when control reaches
  the label \<^verbatim>\<open>error\<close> / \<^verbatim>\<open>ifc_error\<close> with that value of \<^verbatim>\<open>success\<close>, \<^verbatim>\<open>Throws e\<close> when the
  exception \<^verbatim>\<open>e\<close> leaves the function.
\<close>

definition ConvertPlnToIfc_try ::
  "string \<Rightarrow> string \<Rightarrow> 'w ProgressCallback \<Rightarrow> host \<Rightarrow> 'w sys \<Rightarrow> bool outcome \<times> 'w sys" where
  "ConvertPlnToIfc_try plnPath outputPath onProgress h w =
     (case ConvertPlnToIfc_block plnPath outputPath onProgress h w of
        (Returns success, w') \<Rightarrow> (Returns success, w')
      | (Throws e, w') \<Rightarrow> outer_catch onProgress e w')"

definition ConvertIfcToPln_try ::
  "string \<Rightarrow> string \<Rightarrow> 'w ProgressCallback \<Rightarrow> host \<Rightarrow> 'w sys \<Rightarrow> bool outcome \<times> 'w sys" where
  "ConvertIfcToPln_try ifcPath outputPath onProgress h w =
     (case ConvertIfcToPln_block ifcPath outputPath onProgress h w of
        (Returns success, w') \<Rightarrow> (Returns success, w')
      | (Throws e, w') \<Rightarrow> outer_catch onProgress e w')"

text \<open>
  The admission test and the three assignments after it (lines 63-73 and 280-290), for a
  call that no other call runs beside: \<^verbatim>\<open>None\<close> when another conversion is in progress.
\<close>

definition admit :: "string \<Rightarrow> ConversionHandler \<Rightarrow> ConversionHandler option" where
  "admit jobId st =
     (if s_conversionInProgress st then None
      else Some (st\<lparr>s_conversionInProgress := True, s_currentJobId := jobId,
                    s_shouldCancel := False\<rparr>))"

text \<open>
  The code from the label \<^verbatim>\<open>error\<close> / \<^verbatim>\<open>ifc_error\<close> on (lines 247-269 and 437-459): close the
  project, open a blank template, reset the state, return \<^verbatim>\<open>success\<close>. An exception that leaves
  the function does not pass here.
\<close>

definition close_and_blank :: "'w sys \<Rightarrow> 'w sys" where
  "close_and_blank w = call_host NewProject (call_host ProjectClose w)"

definition reset_state :: "'w sys \<Rightarrow> 'w sys" where
  "reset_state w = w\<lparr>handler := (handler w)\<lparr>s_conversionInProgress := False, s_currentJobId := []\<rparr>\<rparr>"

definition from_error_label :: "bool outcome \<times> 'w sys \<Rightarrow> bool outcome \<times> 'w sys" where
  "from_error_label r =
     (case r of
        (Returns success, w) \<Rightarrow> (Returns success, reset_state (close_and_blank w))
      | (Throws e, w) \<Rightarrow> (Throws e, w))"

text \<open>The branch of the admission test (lines 63-69 and 280-286).\<close>

definition rejected :: "'w ProgressCallback \<Rightarrow> 'w sys \<Rightarrow> bool outcome \<times> 'w sys" where
  "rejected onProgress w =
     (case notify onProgress 0 ''Error: Another conversion is already in progress'' w of
        (None, w') \<Rightarrow> (Returns False, w')
      | (Some e, w') \<Rightarrow> (Throws e, w'))"

text \<open>
  The two conversions: what the call returns or throws, and the system it leaves.
\<close>

definition ConvertPlnToIfc ::
  "string \<Rightarrow> string \<Rightarrow> string \<Rightarrow> 'w ProgressCallback \<Rightarrow> host \<Rightarrow> 'w sys \<Rightarrow> bool outcome \<times> 'w sys" where
  "ConvertPlnToIfc jobId plnPath outputPath onProgress h w =
     (case admit jobId (handler w) of
        None \<Rightarrow> rejected onProgress w
      | Some st \<Rightarrow>
          from_error_label (ConvertPlnToIfc_try plnPath outputPath onProgress h (w\<lparr>handler := st\<rparr>)))"

definition ConvertIfcToPln ::
  "string \<Rightarrow> string \<Rightarrow> string \<Rightarrow> 'w ProgressCallback \<Rightarrow> host \<Rightarrow> 'w sys \<Rightarrow> bool outcome \<times> 'w sys" where
  "ConvertIfcToPln jobId ifcPath outputPath onProgress h w =
     (case admit jobId (handler w) of
        None \<Rightarrow> rejected onProgress w
      | Some st \<Rightarrow>
          from_error_label (ConvertIfcToPln_try ifcPath outputPath onProgress h (w\<lparr>handler := st\<rparr>)))"

text \<open>\<^verbatim>\<open>Cleanup\<close> (lines 478-504).\<close>

definition Cleanup :: "'w sys \<Rightarrow> 'w sys" where
  "Cleanup w =
     (call_host ProjectClose w)\<lparr>handler :=
        (handler w)\<lparr>s_conversionInProgress := False, s_currentJobId := [], s_shouldCancel := False\<rparr>\<rparr>"

subsection \<open>Cancellation requests arriving while a conversion runs\<close>

text \<open>
  \<^verbatim>\<open>CancelConversion\<close> is called from the socket thread (\<^verbatim>\<open>HandleWebSocketCommand\<close>), the
  conversions run on the host's main thread. \<^verbatim>\<open>cancels\<close> is the effect of a sequence of such
  calls on the system.
\<close>

definition cancels :: "string list \<Rightarrow> 'w sys \<Rightarrow> 'w sys" where
  "cancels jobIds w = w\<lparr>handler := fold (\<lambda>j st. snd (CancelConversion j st)) jobIds (handler w)\<rparr>"

text \<open>
  The two conversions with cancellation requests arriving after the admission: the requests
  \<^verbatim>\<open>during_try\<close> while the \<^verbatim>\<open>try\<close> statement runs and the requests \<^verbatim>\<open>during_cleanup\<close> between
  that statement and the final reset of the state (or the exit of the function by an
  exception). The requests are applied before the \<^verbatim>\<open>try\<close> statement and after the two host
  calls of the cleanup; a request commutes with every statement in between (\<^verbatim>\<open>notify_cancels\<close>,
  \<^verbatim>\<open>call_host_cancels\<close>, \<^verbatim>\<open>PlnToIfc_try_cancels\<close>, \<^verbatim>\<open>IfcToPln_try_cancels\<close> below), so this covers
  its arrival between any two statements.
\<close>

definition from_error_label_cancelled ::
  "string list \<Rightarrow> bool outcome \<times> 'w sys \<Rightarrow> bool outcome \<times> 'w sys" where
  "from_error_label_cancelled during_cleanup r =
     (case r of
        (Returns success, w) \<Rightarrow>
          (Returns success, reset_state (cancels during_cleanup (close_and_blank w)))
      | (Throws e, w) \<Rightarrow> (Throws e, cancels during_cleanup w))"

definition ConvertPlnToIfc_cancelled ::
  "string list \<Rightarrow> string list \<Rightarrow> string \<Rightarrow> string \<Rightarrow> string \<Rightarrow> 'w ProgressCallback \<Rightarrow> host
     \<Rightarrow> 'w sys \<Rightarrow> bool outcome \<times> 'w sys" where
  "ConvertPlnToIfc_cancelled during_try during_cleanup jobId plnPath outputPath onProgress h w =
     (case admit jobId (handler w) of
        None \<Rightarrow> rejected onProgress w
      | Some st \<Rightarrow>
          from_error_label_cancelled during_cleanup
            (ConvertPlnToIfc_try plnPath outputPath onProgress h
               (cancels during_try (w\<lparr>handler := st\<rparr>))))"

definition ConvertIfcToPln_cancelled ::
  "string list \<Rightarrow> string list \<Rightarrow> string \<Rightarrow> string \<Rightarrow> string \<Rightarrow> 'w ProgressCallback \<Rightarrow> host
     \<Rightarrow> 'w sys \<Rightarrow> bool outcome \<times> 'w sys" where
  "ConvertIfcToPln_cancelled during_try during_cleanup jobId ifcPath outputPath onProgress h w =
     (case admit jobId (handler w) of
        None \<Rightarrow> rejected onProgress w
      | Some st \<Rightarrow>
          from_error_label_cancelled during_cleanup
            (ConvertIfcToPln_try ifcPath outputPath onProgress h
               (cancels during_try (w\<lparr>handler := st\<rparr>))))"

subsection \<open>Calls of the conversions that overlap\<close>

text \<open>
  The job state is three plain static variables, read and written without a lock. When calls
  of the conversions overlap, what a call does to the job state is a sequence of separate
  steps: the test of line 63 (280), the assignments of lines 71, 72 and 73 (288, 289, 290),
  the \<^verbatim>\<open>try\<close> statement with the two host calls of the cleanup (which neither read nor write the
  job state), and the assignments of lines 266 and 267 (456, 457). \<^verbatim>\<open>position\<close> says which
  step a call takes next, or how it has ended: \<^verbatim>\<open>Rejected\<close> by the admission test, or having
  left the function after its admission.
\<close>

datatype position =
    AtTest
  | AtSetInProgress
  | AtSetJobId
  | AtSetCancel
  | InTry
  | AtResetInProgress bool
  | AtResetJobId bool
  | Rejected
  | Exited "bool outcome"

text \<open>
  A call as far as the job state goes: its job id, and how its \<^verbatim>\<open>try\<close> statement ends (what
  \<^verbatim>\<open>ConvertPlnToIfc_try\<close> or \<^verbatim>\<open>ConvertIfcToPln_try\<close> gives for its paths, callback and host).
\<close>

record call =
  call_jobId :: string
  call_try :: "bool outcome"

fun call_step :: "call \<Rightarrow> position \<Rightarrow> ConversionHandler \<Rightarrow> position \<times> ConversionHandler" where
  "call_step c AtTest st =
     (if s_conversionInProgress st then (Rejected, st) else (AtSetInProgress, st))"
| "call_step c AtSetInProgress st = (AtSetJobId, st\<lparr>s_conversionInProgress := True\<rparr>)"
| "call_step c AtSetJobId st = (AtSetCancel, st\<lparr>s_currentJobId := call_jobId c\<rparr>)"
| "call_step c AtSetCancel st = (InTry, st\<lparr>s_shouldCancel := False\<rparr>)"
| "call_step c InTry st =
     (case call_try c of
        Returns success \<Rightarrow> (AtResetInProgress success, st)
      | Throws e \<Rightarrow> (Exited (Throws e), st))"
| "call_step c (AtResetInProgress success) st =
     (AtResetJobId success, st\<lparr>s_conversionInProgress := False\<rparr>)"
| "call_step c (AtResetJobId success) st = (Exited (Returns success), st\<lparr>s_currentJobId := []\<rparr>)"
| "call_step c Rejected st = (Rejected, st)"
| "call_step c (Exited r) st = (Exited r, st)"

text \<open>
  Overlapping calls: the job state and the position of every call. A schedule names the call
  that takes the next step, one after another.
\<close>

type_synonym overlap = "ConversionHandler \<times> position list"

definition overlap_step :: "call list \<Rightarrow> nat \<Rightarrow> overlap \<Rightarrow> overlap" where
  "overlap_step calls i cfg =
     (if i < length calls \<and> i < length (snd cfg)
      then (snd (call_step (calls ! i) (snd cfg ! i) (fst cfg)),
            (snd cfg)[i := fst (call_step (calls ! i) (snd cfg ! i) (fst cfg))])
      else cfg)"

definition overlap_run :: "call list \<Rightarrow> nat list \<Rightarrow> overlap \<Rightarrow> overlap" where
  "overlap_run calls schedule cfg = fold (overlap_step calls) schedule cfg"

text \<open>
  A call is in flight from the moment it passes the admission test until it has cleared
  \<^verbatim>\<open>s_conversionInProgress\<close> again.
\<close>

fun in_flight :: "position \<Rightarrow> bool" where
  "in_flight AtSetInProgress = True"
| "in_flight AtSetJobId = True"
| "in_flight AtSetCancel = True"
| "in_flight InTry = True"
| "in_flight (AtResetInProgress success) = True"
| "in_flight _ = False"

text \<open>From the assignment of line 71 on, the call in flight has set the flag.\<close>

fun holds_flag :: "position \<Rightarrow> bool" where
  "holds_flag AtSetInProgress = False"
| "holds_flag p = in_flight p"

text \<open>
  A schedule in which admission is one step: whenever a call has passed the test of line 63
  and not yet made the assignment of line 71, the next step is its own. This is so in
  particular when the calls are run one after another.
\<close>

fun atomic_admission :: "call list \<Rightarrow> nat list \<Rightarrow> overlap \<Rightarrow> bool" where
  "atomic_admission calls [] cfg = True"
| "atomic_admission calls (i # schedule) cfg =
     (AtSetInProgress \<notin> set (take i (snd cfg) @ drop (Suc i) (snd cfg))
      \<and> atomic_admission calls schedule (overlap_step calls i cfg))"

section \<open>The add-on commands: IFC\_To\_Archicad.cpp\<close>

text \<open>
  The three kinds of message the server broadcasts (WebSocketServer.cpp, lines 460-501):
  \<^verbatim>\<open>SendProgress(jobId, progress, status, message)\<close> builds a message of type \<^verbatim>\<open>progress\<close>,
  \<^verbatim>\<open>SendError(jobId, error)\<close> one of type \<^verbatim>\<open>error\<close>, and
  \<^verbatim>\<open>SendCompletion(jobId, outputPath)\<close> one of type \<^verbatim>\<open>completed\<close>.
\<close>

datatype event =
    SendProgress string int string string
  | SendError string string
  | SendCompletion string string

fun is_error_event :: "event \<Rightarrow> bool" where
  "is_error_event (SendError jobId error) = True"
| "is_error_event _ = False"

fun event_jobId :: "event \<Rightarrow> string" where
  "event_jobId (SendProgress jobId progress status message) = jobId"
| "event_jobId (SendError jobId error) = jobId"
| "event_jobId (SendCompletion jobId outputPath) = jobId"

text \<open>
  \<^verbatim>\<open>if (g_wsServer) g_wsServer->Send...\<close>: the global server pointer may be null; the flag
  \<^verbatim>\<open>server\<close> says that it is set. The observer of a command is the list of messages handed to
  \<^verbatim>\<open>BroadcastMessage\<close>, oldest first.
\<close>

definition broadcast :: "bool \<Rightarrow> event \<Rightarrow> event list \<Rightarrow> event list" where
  "broadcast server e log = (if server then log @ [e] else log)"

text \<open>
  The lambda handed to the conversions (lines 87-96 and 140-149). The progress window it
  updates first only writes to the console; it hands one message to the broadcaster and
  returns.
\<close>

definition progress_status :: "int \<Rightarrow> string" where
  "progress_status progress =
     (if progress = 0 then ''error'' else if progress = 100 then ''completed'' else ''processing'')"

definition execute_callback :: "bool \<Rightarrow> string \<Rightarrow> event list ProgressCallback" where
  "execute_callback server jobId =
     Some (\<lambda>progress message log.
       (None, broadcast server (SendProgress jobId progress (progress_status progress) message) log))"

text \<open>The tail of both \<^verbatim>\<open>Execute\<close> methods (lines 107-111 and 160-164).\<close>

definition report_result :: "bool \<Rightarrow> string \<Rightarrow> string \<Rightarrow> bool \<Rightarrow> event list sys \<Rightarrow> event list sys" where
  "report_result server jobId outputPath success w =
     (if success \<and> server then w\<lparr>observer := broadcast server (SendCompletion jobId outputPath) (observer w)\<rparr>
      else if \<not> success \<and> server
      then w\<lparr>observer := broadcast server (SendError jobId ''Conversion failed'') (observer w)\<rparr>
      else w)"

text \<open>
  \<^verbatim>\<open>ConversionCommand::Execute\<close> (lines 64-114), on the parameters it reads. There is no
  handler in it: an exception that leaves the conversion leaves the command.
\<close>

definition ConversionCommand_Execute ::
  "bool \<Rightarrow> string \<Rightarrow> string \<Rightarrow> string \<Rightarrow> host \<Rightarrow> event list sys \<Rightarrow> bool outcome \<times> event list sys" where
  "ConversionCommand_Execute server jobId plnPath outputPath h w =
     (case ConvertPlnToIfc jobId plnPath outputPath (execute_callback server jobId) h w of
        (Returns success, w') \<Rightarrow> (Returns success, report_result server jobId outputPath success w')
      | (Throws e, w') \<Rightarrow> (Throws e, w'))"

text \<open>\<^verbatim>\<open>ConvertIfcToPlnCommand::Execute\<close> (lines 117-167).\<close>

definition ConvertIfcToPlnCommand_Execute ::
  "bool \<Rightarrow> string \<Rightarrow> string \<Rightarrow> string \<Rightarrow> host \<Rightarrow> event list sys \<Rightarrow> bool outcome \<times> event list sys" where
  "ConvertIfcToPlnCommand_Execute server jobId ifcPath outputPath h w =
     (case ConvertIfcToPln jobId ifcPath outputPath (execute_callback server jobId) h w of
        (Returns success, w') \<Rightarrow> (Returns success, report_result server jobId outputPath success w')
      | (Throws e, w') \<Rightarrow> (Throws e, w'))"

section \<open>Text search as the router uses it\<close>

text \<open>
  Positions are \<^verbatim>\<open>size_t\<close> values; \<^verbatim>\<open>None\<close> stands for \<^verbatim>\<open>std::string::npos\<close>. A string is far
  shorter than \<^verbatim>\<open>npos\<close>, so the only wrap-around the code can meet is \<^verbatim>\<open>npos + 1 = 0\<close>.
\<close>

type_synonym size_t = "nat option"

text \<open>The index of the first occurrence of \<^verbatim>\<open>needle\<close> in a string.\<close>

fun find_first :: "string \<Rightarrow> string \<Rightarrow> nat option" where
  "find_first needle [] = (if needle = [] then Some 0 else None)"
| "find_first needle (c # cs) =
     (if take (length needle) (c # cs) = needle then Some 0
      else map_option Suc (find_first needle cs))"

text \<open>\<^verbatim>\<open>s.find(needle, pos)\<close>: nothing is found from a position beyond the end.\<close>

definition str_find :: "string \<Rightarrow> string \<Rightarrow> size_t \<Rightarrow> size_t" where
  "str_find s needle pos =
     (case pos of
        None \<Rightarrow> None
      | Some p \<Rightarrow> if length s < p then None
                  else map_option (\<lambda>i. p + i) (find_first needle (drop p s)))"

definition plus_one :: "size_t \<Rightarrow> size_t" where
  "plus_one pos = (case pos of None \<Rightarrow> Some 0 | Some p \<Rightarrow> Some (p + 1))"

text \<open>
  \<^verbatim>\<open>s.substr(pos, n)\<close>. It throws for a position beyond the end; every call of the router
  passes the position after a character that was found, which is not beyond the end.
\<close>

definition substr :: "string \<Rightarrow> nat \<Rightarrow> nat \<Rightarrow> string" where
  "substr s pos n = take n (drop pos s)"

definition quoted :: "string \<Rightarrow> string" where
  "quoted s = CHR 0x22 # s @ [CHR 0x22]"

text \<open>
  The four lines that follow every successful search for a key, in \<^verbatim>\<open>HandleCommand\<close> and in
  \<^verbatim>\<open>HandleWebSocketCommand\<close> alike: the next colon, the next quote, the quote after it, and the
  text between the two quotes. \<^verbatim>\<open>None\<close> when the condition
  \<^verbatim>\<open>quoteStart != npos && quoteEnd != npos\<close> fails and nothing is assigned.
\<close>

definition value_after :: "string \<Rightarrow> nat \<Rightarrow> string option" where
  "value_after payload keyPos =
     (let colonPos = str_find payload '':'' (Some keyPos);
          quoteStart = str_find payload [CHR 0x22] colonPos;
          quoteEnd = str_find payload [CHR 0x22] (plus_one quoteStart)
      in case quoteStart of
           None \<Rightarrow> None
         | Some qs \<Rightarrow>
             (case quoteEnd of
                None \<Rightarrow> None
              | Some qe \<Rightarrow> Some (substr payload (qs + 1) (qe - qs - 1))))"

section \<open>The server: WebSocketServer.cpp\<close>





subsection \<open>Sessions\<close>

text \<open>
  A session (lines 30-201): the open flag and the write queue of the source, and what the
  socket sees of it: whether an \<^verbatim>\<open>async_read\<close> is outstanding, the messages handed to
  \<^verbatim>\<open>async_write\<close> so far, oldest first, and the number of writes that have not completed.
\<close>

record session =
  m_open :: bool
  m_writeQueue :: "string list"
  reading :: bool
  written :: "string list"
  writes_in_flight :: nat




text \<open>\<^verbatim>\<open>DoWrite\<close> (lines 146-157).\<close>

definition DoWrite :: "session \<Rightarrow> session" where
  "DoWrite s =
     (if m_writeQueue s = [] then s
      else s\<lparr>written := written s @ [hd (m_writeQueue s)],
             writes_in_flight := writes_in_flight s + 1\<rparr>)"

text \<open>\<^verbatim>\<open>Send\<close> (lines 128-144).\<close>

definition Send :: "string \<Rightarrow> session \<Rightarrow> session" where
  "Send message s =
     (if \<not> m_open s then s
      else
        let writing = (m_writeQueue s \<noteq> []);
            s' = s\<lparr>m_writeQueue := m_writeQueue s @ [message]\<rparr>
        in if \<not> writing then DoWrite s' else s')"

text \<open>
  \<^verbatim>\<open>OnWrite\<close> (lines 159-175), the completion of the write in flight; \<^verbatim>\<open>ec\<close> says that it
  failed.
\<close>

definition OnWrite :: "bool \<Rightarrow> session \<Rightarrow> session" where
  "OnWrite ec s =
     (let s0 = s\<lparr>writes_in_flight := writes_in_flight s - 1\<rparr>
      in if ec then s0\<lparr>m_open := False\<rparr>
         else
           let s' = s0\<lparr>m_writeQueue := tl (m_writeQueue s0)\<rparr>
           in if m_writeQueue s' \<noteq> [] then DoWrite s' else s')"

text \<open>\<^verbatim>\<open>Close\<close> (lines 177-191).\<close>

definition Close :: "session \<Rightarrow> session" where
  "Close s = (if \<not> m_open s then s else s\<lparr>m_open := False\<rparr>)"

text \<open>
  What happens to the write side of a session: calls of \<^verbatim>\<open>Send\<close> (from any thread, under the
  write mutex), completions of writes, and the closing of the session (by \<^verbatim>\<open>Close\<close>, or by
  \<^verbatim>\<open>OnRead\<close> when a read fails or the client closes, which clears the open flag just so).
  A completion can only happen while a write is in flight; a schedule that has one at
  another time is not a run of the session.
\<close>

datatype write_event = SendCall string | WriteCompleted bool | SessionClosed

fun run_session :: "write_event list \<Rightarrow> session \<Rightarrow> session option" where
  "run_session [] s = Some s"
| "run_session (SendCall message # es) s = run_session es (Send message s)"
| "run_session (WriteCompleted ec # es) s =
     (if writes_in_flight s = 0 then None else run_session es (OnWrite ec s))"
| "run_session (SessionClosed # es) s = run_session es (Close s)"

fun sent :: "write_event list \<Rightarrow> string list" where
  "sent [] = []"
| "sent (SendCall message # es) = message # sent es"
| "sent (WriteCompleted ec # es) = sent es"
| "sent (SessionClosed # es) = sent es"

text \<open>A schedule without a failed write and without a closing of the session.\<close>

fun undisturbed :: "write_event list \<Rightarrow> bool" where
  "undisturbed [] = True"
| "undisturbed (SendCall message # es) = undisturbed es"
| "undisturbed (WriteCompleted ec # es) = (\<not> ec \<and> undisturbed es)"
| "undisturbed (SessionClosed # es) = False"

definition accepted_session :: session where
  "accepted_session =
     \<lparr>m_open = True, m_writeQueue = [], reading = True, written = [], writes_in_flight = 0\<rparr>"

text \<open>
  The invariant of the write side: at most one write is in flight, and only while the queue
  is not empty; an open session with a queue that is not empty has one in flight.
  \<^verbatim>\<open>handed_over\<close> lists the messages accepted by \<^verbatim>\<open>Send\<close> so far.
\<close>

definition write_inv :: "session \<Rightarrow> bool" where
  "write_inv s \<longleftrightarrow>
     writes_in_flight s \<le> 1
     \<and> (writes_in_flight s = 1 \<longrightarrow> m_writeQueue s \<noteq> [])
     \<and> (m_open s \<and> m_writeQueue s \<noteq> [] \<longrightarrow> writes_in_flight s = 1)"

definition handed_over :: "session \<Rightarrow> string list" where
  "handed_over s = written s @ tl (m_writeQueue s)"

section \<open>The command router: HandleWebSocketCommand in IFC\_To\_Archicad.cpp\<close>


text \<open>
  The state the router works on: the job state, the messages handed to
  \<^verbatim>\<open>BroadcastMessage\<close>, and the requests posted to the host's HTTP port (the port and the body),
  each of which makes the host run an add-on command on its main thread.
\<close>

record plugin =
  job_state :: ConversionHandler
  broadcasts :: "event list"
  http_posts :: "(nat \<times> string) list"


definition send_event :: "bool \<Rightarrow> event \<Rightarrow> plugin \<Rightarrow> plugin" where
  "send_event server e p = p\<lparr>broadcasts := broadcast server e (broadcasts p)\<rparr>"

text \<open>
  The search for a key under its two names (lines 426-429, 444-447, 462-465): the second
  name is tried only if the first is not found.
\<close>

definition key_position :: "string \<Rightarrow> string \<Rightarrow> string \<Rightarrow> size_t" where
  "key_position payload name alternate =
     (case str_find payload (quoted name) (Some 0) of
        None \<Rightarrow> str_find payload (quoted alternate) (Some 0)
      | Some pos \<Rightarrow> Some pos)"






text \<open>
  What the router reads for a key under its two names: the text after the occurrence that
  \<^verbatim>\<open>key_position\<close> finds, if there is one and a quoted text follows it.
\<close>

definition field_value :: "string \<Rightarrow> string \<Rightarrow> string \<Rightarrow> string option" where
  "field_value payload name alternate =
     (case key_position payload name alternate of
        None \<Rightarrow> None
      | Some pos \<Rightarrow> value_after payload pos)"

section \<open>JSON string escaping: EscapeJson in WebSocketServer.cpp\<close>

text \<open>
  \<^verbatim>\<open>EscapeJson\<close> (lines 514-535) works on the \<^verbatim>\<open>char\<close>s of a \<^verbatim>\<open>std::string\<close>. Whether plain
  \<^verbatim>\<open>char\<close> is signed is fixed by the compiler, not by the source: \<^verbatim>\<open>char_signed\<close> is that
  choice. It is signed for the compilers of the platforms the plugin is built for (the
  sources include \<^verbatim>\<open>Windows.h\<close> and use the warning pragmas of Visual C++).
  \<^verbatim>\<open>char_as_int\<close> is the value of a \<^verbatim>\<open>char\<close> in the comparison \<^verbatim>\<open>c < 0x20\<close> and in
  \<^verbatim>\<open>static_cast<int>(c)\<close>.
\<close>

definition char_as_int :: "bool \<Rightarrow> char \<Rightarrow> int" where
  "char_as_int char_signed c =
     (if char_signed \<and> 128 \<le> (of_char c :: int) then of_char c - 256 else of_char c)"

definition hex_digit :: "nat \<Rightarrow> char" where
  "hex_digit d = ''0123456789abcdef'' ! d"

fun hex_digits :: "nat \<Rightarrow> string" where
  "hex_digits n =
     (if n < 16 then [hex_digit n]
      else hex_digits (n div 16) @ [hex_digit (n mod 16)])"

declare hex_digits.simps [simp del]

text \<open>
  \<^verbatim>\<open>oss << std::hex << std::setw(4) << std::setfill('0') << i\<close> for an \<^verbatim>\<open>int i\<close>: the digits of
  \<^verbatim>\<open>i\<close> converted to \<^verbatim>\<open>unsigned\<close> (32 bits), padded on the left to four characters.
\<close>

definition hex_setw4 :: "int \<Rightarrow> string" where
  "hex_setw4 i =
     (let digits = hex_digits (nat (i mod 2 ^ 32))
      in replicate (4 - length digits) CHR ''0'' @ digits)"

text \<open>One round of the loop: what is written for the character \<^verbatim>\<open>c\<close>.\<close>

definition escape_char :: "bool \<Rightarrow> char \<Rightarrow> string" where
  "escape_char char_signed c =
     (if c = CHR 0x22 then [CHR 0x5C, CHR 0x22]
      else if c = CHR 0x5C then [CHR 0x5C, CHR 0x5C]
      else if c = CHR 0x08 then [CHR 0x5C, CHR ''b'']
      else if c = CHR 0x0C then [CHR 0x5C, CHR ''f'']
      else if c = CHR 0x0A then [CHR 0x5C, CHR ''n'']
      else if c = CHR 0x0D then [CHR 0x5C, CHR ''r'']
      else if c = CHR 0x09 then [CHR 0x5C, CHR ''t'']
      else if char_as_int char_signed c < 0x20
      then [CHR 0x5C, CHR ''u''] @ hex_setw4 (char_as_int char_signed c)
      else [c])"

definition EscapeJson :: "bool \<Rightarrow> string \<Rightarrow> string" where
  "EscapeJson char_signed str = concat (map (escape_char char_signed) str)"

subsection \<open>A standard decoder of JSON strings\<close>

text \<open>
  Modelled from the standard the spec refers to (RFC 8259, section 7), not from the source:
  the decoder of the text between the quotes of a JSON string, on bytes, producing UTF-8.
  A backslash starts one of the two-character escapes or \<^verbatim>\<open>\uXXXX\<close> with four hexadecimal
  digits (a high surrogate must be followed by the escape of a low one, and the pair is one
  code point); a quote or a control character that is not escaped is an error; every other
  byte stands for itself.
\<close>

definition hex_value :: "char \<Rightarrow> nat option" where
  "hex_value c =
     (let n = (of_char c :: nat)
      in if 48 \<le> n \<and> n \<le> 57 then Some (n - 48)
         else if 97 \<le> n \<and> n \<le> 102 then Some (n - 87)
         else if 65 \<le> n \<and> n \<le> 70 then Some (n - 55)
         else None)"

definition hex4 :: "char \<Rightarrow> char \<Rightarrow> char \<Rightarrow> char \<Rightarrow> nat option" where
  "hex4 a b c d =
     (case (hex_value a, hex_value b, hex_value c, hex_value d) of
        (Some x, Some y, Some z, Some w) \<Rightarrow> Some (((x * 16 + y) * 16 + z) * 16 + w)
      | _ \<Rightarrow> None)"

definition utf8 :: "nat \<Rightarrow> string" where
  "utf8 cp =
     (if cp < 0x80 then [char_of cp]
      else if cp < 0x800 then [char_of (0xC0 + cp div 64), char_of (0x80 + cp mod 64)]
      else if cp < 0x10000
      then [char_of (0xE0 + cp div 4096), char_of (0x80 + cp div 64 mod 64), char_of (0x80 + cp mod 64)]
      else [char_of (0xF0 + cp div 262144), char_of (0x80 + cp div 4096 mod 64),
            char_of (0x80 + cp div 64 mod 64), char_of (0x80 + cp mod 64)])"

definition simple_escape :: "char \<Rightarrow> char option" where
  "simple_escape e =
     (if e = CHR 0x22 then Some (CHR 0x22)
      else if e = CHR 0x5C then Some (CHR 0x5C)
      else if e = CHR ''/'' then Some (CHR ''/'')
      else if e = CHR ''b'' then Some (CHR 0x08)
      else if e = CHR ''f'' then Some (CHR 0x0C)
      else if e = CHR ''n'' then Some (CHR 0x0A)
      else if e = CHR ''r'' then Some (CHR 0x0D)
      else if e = CHR ''t'' then Some (CHR 0x09)
      else None)"

fun json_decode_string :: "string \<Rightarrow> string option" where
  "json_decode_string [] = Some []"
| "json_decode_string (c # cs) =
     (if c = CHR 0x5C then
        (case cs of
           [] \<Rightarrow> None
         | e # rest \<Rightarrow>
             if e = CHR ''u'' then
               (case rest of
                  h1 # h2 # h3 # h4 # rest' \<Rightarrow>
                    (case hex4 h1 h2 h3 h4 of
                       None \<Rightarrow> None
                     | Some cp \<Rightarrow>
                         if 0xD800 \<le> cp \<and> cp < 0xDC00 then
                           (case rest' of
                              b # u # l1 # l2 # l3 # l4 # rest'' \<Rightarrow>
                                if b = CHR 0x5C \<and> u = CHR ''u'' then
                                  (case hex4 l1 l2 l3 l4 of
                                     None \<Rightarrow> None
                                   | Some lo \<Rightarrow>
                                       if 0xDC00 \<le> lo \<and> lo < 0xE000
                                       then map_option
                                              (\<lambda>r. utf8 (0x10000 + (cp - 0xD800) * 1024 + (lo - 0xDC00)) @ r)
                                              (json_decode_string rest'')
                                       else None)
                                else None
                            | _ \<Rightarrow> None)
                         else if 0xDC00 \<le> cp \<and> cp < 0xE000 then None
                         else map_option (\<lambda>r. utf8 cp @ r) (json_decode_string rest'))
                | _ \<Rightarrow> None)
             else
               (case simple_escape e of
                  None \<Rightarrow> None
                | Some d \<Rightarrow> map_option (\<lambda>r. d # r) (json_decode_string rest)))
      else if c = CHR 0x22 \<or> (of_char c :: nat) < 0x20 then None
      else map_option (\<lambda>r. c # r) (json_decode_string cs))"

section \<open>Properties\<close>

subsection \<open>Effects of the building blocks\<close>

lemma handler_notify [simp]: "handler (snd (notify cb p m w)) = handler w"
  by (simp add: notify_def split: option.splits)

lemma host_calls_notify [simp]: "host_calls (snd (notify cb p m w)) = host_calls w"
  by (simp add: notify_def split: option.splits)

lemma handler_call_host [simp]: "handler (call_host c w) = handler w"
  by (simp add: call_host_def)

lemma observer_call_host [simp]: "observer (call_host c w) = observer w"
  by (simp add: call_host_def)

lemma host_calls_call_host [simp]: "host_calls (call_host c w) = host_calls w @ [c]"
  by (simp add: call_host_def)

text \<open>
  What the \<^verbatim>\<open>try\<close> statements do to the system is a sequence of calls of the callback and of
  the host: a property that those calls preserve is preserved by the statement.
\<close>

lemma on_progress_preserves:
  assumes "\<And>p m w. P w \<Longrightarrow> P (snd (notify cb p m w))"
    and "\<And>w'. P w' \<Longrightarrow> P (snd (rest w'))" and "P w"
  shows "P (snd (on_progress cb p m w rest))"
proof (cases "notify cb p m w")
  case (Pair e w')
  with assms(1) [OF assms(3), of p m] have "P w'" by simp
  with Pair assms(2) show ?thesis
    by (cases e) (simp_all add: on_progress_def)
qed

lemma fail_preserves:
  assumes "\<And>p m w. P w \<Longrightarrow> P (snd (notify cb p m w))" and "P w"
  shows "P (snd (fail cb m w))"
  unfolding fail_def by (rule on_progress_preserves [where P = P]) (use assms in simp_all)

lemma outer_catch_preserves:
  assumes "\<And>p m w. P w \<Longrightarrow> P (snd (notify cb p m w))" and "P w"
  shows "P (snd (outer_catch cb e w))"
proof -
  let ?m = "case e of StdException what \<Rightarrow> ''Error: '' @ what
            | UnknownException \<Rightarrow> ''Error: Unknown exception''"
  from assms(1) [OF assms(2), of 0 ?m] show ?thesis
    by (cases "notify cb 0 ?m w") (auto simp add: outer_catch_def split: option.splits)
qed

lemma PlnToIfc_block_preserves:
  assumes n: "\<And>p m w. P w \<Longrightarrow> P (snd (notify cb p m w))"
    and c: "\<And>c w. P w \<Longrightarrow> P (call_host c w)" and w: "P w"
  shows "P (snd (ConvertPlnToIfc_block p out cb h w))"
  unfolding ConvertPlnToIfc_block_def Let_def
  by (auto split: outcome.splits exn.splits
      intro!: on_progress_preserves [where P = P] fail_preserves [where P = P] n c w)

lemma IfcToPln_block_preserves:
  assumes n: "\<And>p m w. P w \<Longrightarrow> P (snd (notify cb p m w))"
    and c: "\<And>c w. P w \<Longrightarrow> P (call_host c w)" and w: "P w"
  shows "P (snd (ConvertIfcToPln_block p out cb h w))"
  unfolding ConvertIfcToPln_block_def Let_def
  by (auto split: outcome.splits exn.splits
      intro!: on_progress_preserves [where P = P] fail_preserves [where P = P] n c w)

lemma PlnToIfc_try_preserves:
  assumes n: "\<And>p m w. P w \<Longrightarrow> P (snd (notify cb p m w))"
    and c: "\<And>c w. P w \<Longrightarrow> P (call_host c w)" and w: "P w"
  shows "P (snd (ConvertPlnToIfc_try p out cb h w))"
proof -
  have b: "P (snd (ConvertPlnToIfc_block p out cb h w))"
    by (rule PlnToIfc_block_preserves [where P = P]) (use assms in simp_all)
  show ?thesis
  proof (cases "ConvertPlnToIfc_block p out cb h w")
    case (Pair r w')
    with b have "P w'" by simp
    with Pair show ?thesis
      by (cases r) (simp_all add: ConvertPlnToIfc_try_def outer_catch_preserves [where P = P] n)
  qed
qed

lemma IfcToPln_try_preserves:
  assumes n: "\<And>p m w. P w \<Longrightarrow> P (snd (notify cb p m w))"
    and c: "\<And>c w. P w \<Longrightarrow> P (call_host c w)" and w: "P w"
  shows "P (snd (ConvertIfcToPln_try p out cb h w))"
proof -
  have b: "P (snd (ConvertIfcToPln_block p out cb h w))"
    by (rule IfcToPln_block_preserves [where P = P]) (use assms in simp_all)
  show ?thesis
  proof (cases "ConvertIfcToPln_block p out cb h w")
    case (Pair r w')
    with b have "P w'" by simp
    with Pair show ?thesis
      by (cases r) (simp_all add: ConvertIfcToPln_try_def outer_catch_preserves [where P = P] n)
  qed
qed

lemma handler_PlnToIfc_try: "handler (snd (ConvertPlnToIfc_try p out cb h w)) = handler w"
  by (rule PlnToIfc_try_preserves [where P = "\<lambda>w'. handler w' = handler w"]) simp_all

lemma handler_IfcToPln_try: "handler (snd (ConvertIfcToPln_try p out cb h w)) = handler w"
  by (rule IfcToPln_try_preserves [where P = "\<lambda>w'. handler w' = handler w"]) simp_all

lemma host_calls_PlnToIfc_try: "\<exists>cs. host_calls (snd (ConvertPlnToIfc_try p out cb h w)) = host_calls w @ cs"
  by (rule PlnToIfc_try_preserves [where P = "\<lambda>w'. \<exists>cs. host_calls w' = host_calls w @ cs"]) auto

lemma host_calls_IfcToPln_try: "\<exists>cs. host_calls (snd (ConvertIfcToPln_try p out cb h w)) = host_calls w @ cs"
  by (rule IfcToPln_try_preserves [where P = "\<lambda>w'. \<exists>cs. host_calls w' = host_calls w @ cs"]) auto

text \<open>
  A change of the system that commutes with the calls of the callback and of the host
  commutes with the \<^verbatim>\<open>try\<close> statements.
\<close>

lemma on_progress_commute:
  assumes "\<And>p m w. notify cb p m (g w) = apsnd g (notify cb p m w)"
    and "\<And>w'. rest (g w') = apsnd g (rest w')"
  shows "on_progress cb p m (g w) rest = apsnd g (on_progress cb p m w rest)"
  by (cases "notify cb p m w") (auto simp add: on_progress_def assms split: option.splits)

lemma fail_commute:
  assumes "\<And>p m w. notify cb p m (g w) = apsnd g (notify cb p m w)"
  shows "fail cb m (g w) = apsnd g (fail cb m w)"
  unfolding fail_def by (rule on_progress_commute) (simp_all add: assms)

lemma outer_catch_commute:
  assumes "\<And>p m w. notify cb p m (g w) = apsnd g (notify cb p m w)"
  shows "outer_catch cb e (g w) = apsnd g (outer_catch cb e w)"
  by (auto simp add: outer_catch_def assms split: prod.splits option.splits)

lemma PlnToIfc_block_commute:
  assumes n: "\<And>p m w. notify cb p m (g w) = apsnd g (notify cb p m w)"
    and c: "\<And>c w. call_host c (g w) = g (call_host c w)"
  shows "ConvertPlnToIfc_block p out cb h (g w) = apsnd g (ConvertPlnToIfc_block p out cb h w)"
  unfolding ConvertPlnToIfc_block_def Let_def
  by (simp add: c n on_progress_commute fail_commute split: outcome.splits exn.splits)

lemma IfcToPln_block_commute:
  assumes n: "\<And>p m w. notify cb p m (g w) = apsnd g (notify cb p m w)"
    and c: "\<And>c w. call_host c (g w) = g (call_host c w)"
  shows "ConvertIfcToPln_block p out cb h (g w) = apsnd g (ConvertIfcToPln_block p out cb h w)"
  unfolding ConvertIfcToPln_block_def Let_def
  by (simp add: c n on_progress_commute fail_commute split: outcome.splits exn.splits)

lemma PlnToIfc_try_commute:
  assumes n: "\<And>p m w. notify cb p m (g w) = apsnd g (notify cb p m w)"
    and c: "\<And>c w. call_host c (g w) = g (call_host c w)"
  shows "ConvertPlnToIfc_try p out cb h (g w) = apsnd g (ConvertPlnToIfc_try p out cb h w)"
  by (cases "ConvertPlnToIfc_block p out cb h w")
     (auto simp add: ConvertPlnToIfc_try_def PlnToIfc_block_commute [where g = g] n c
        outer_catch_commute [where g = g] split: outcome.splits)

lemma IfcToPln_try_commute:
  assumes n: "\<And>p m w. notify cb p m (g w) = apsnd g (notify cb p m w)"
    and c: "\<And>c w. call_host c (g w) = g (call_host c w)"
  shows "ConvertIfcToPln_try p out cb h (g w) = apsnd g (ConvertIfcToPln_try p out cb h w)"
  by (cases "ConvertIfcToPln_block p out cb h w")
     (auto simp add: ConvertIfcToPln_try_def IfcToPln_block_commute [where g = g] n c
        outer_catch_commute [where g = g] split: outcome.splits)

text \<open>The \<^verbatim>\<open>try\<close> statements neither read nor write the job state.\<close>

lemma notify_handler_update:
  "notify cb p m (w\<lparr>handler := st\<rparr>) = apsnd (\<lambda>w. w\<lparr>handler := st\<rparr>) (notify cb p m w)"
  by (simp add: notify_def split: option.splits)

lemma call_host_handler_update: "call_host c (w\<lparr>handler := st\<rparr>) = (call_host c w)\<lparr>handler := st\<rparr>"
  by (simp add: call_host_def)

lemma PlnToIfc_try_handler_update:
  "ConvertPlnToIfc_try p out cb h (w\<lparr>handler := st\<rparr>) =
     apsnd (\<lambda>w. w\<lparr>handler := st\<rparr>) (ConvertPlnToIfc_try p out cb h w)"
  by (rule PlnToIfc_try_commute [where g = "\<lambda>w. w\<lparr>handler := st\<rparr>"])
     (simp_all add: notify_handler_update call_host_handler_update)

lemma IfcToPln_try_handler_update:
  "ConvertIfcToPln_try p out cb h (w\<lparr>handler := st\<rparr>) =
     apsnd (\<lambda>w. w\<lparr>handler := st\<rparr>) (ConvertIfcToPln_try p out cb h w)"
  by (rule IfcToPln_try_commute [where g = "\<lambda>w. w\<lparr>handler := st\<rparr>"])
     (simp_all add: notify_handler_update call_host_handler_update)

text \<open>A callback that never throws: no exception leaves the \<^verbatim>\<open>try\<close> statements.\<close>

lemma outer_catch_returns:
  assumes "\<And>p m w. fst (notify cb p m w) = None"
  shows "fst (outer_catch cb e w) = Returns False"
proof -
  let ?m = "case e of StdException what \<Rightarrow> ''Error: '' @ what
            | UnknownException \<Rightarrow> ''Error: Unknown exception''"
  from assms [of 0 ?m w] show ?thesis
    by (cases "notify cb 0 ?m w") (simp add: outer_catch_def)
qed

lemma PlnToIfc_try_returns:
  assumes "\<And>p m w. fst (notify cb p m w) = None"
  shows "\<exists>success. fst (ConvertPlnToIfc_try p out cb h w) = Returns success"
proof (cases "ConvertPlnToIfc_block p out cb h w")
  case (Pair r w')
  then show ?thesis
    by (cases r) (auto simp add: ConvertPlnToIfc_try_def outer_catch_returns [OF assms])
qed

lemma IfcToPln_try_returns:
  assumes "\<And>p m w. fst (notify cb p m w) = None"
  shows "\<exists>success. fst (ConvertIfcToPln_try p out cb h w) = Returns success"
proof (cases "ConvertIfcToPln_block p out cb h w")
  case (Pair r w')
  then show ?thesis
    by (cases r) (auto simp add: ConvertIfcToPln_try_def outer_catch_returns [OF assms])
qed

lemma admit_running: "s_conversionInProgress st \<Longrightarrow> admit j st = None"
  by (simp add: admit_def)

lemma admit_idle:
  "\<not> s_conversionInProgress st \<Longrightarrow>
     admit j st = Some (st\<lparr>s_conversionInProgress := True, s_currentJobId := j, s_shouldCancel := False\<rparr>)"
  by (simp add: admit_def)

lemma ConvertPlnToIfc_running:
  "s_conversionInProgress (handler w) \<Longrightarrow> ConvertPlnToIfc j p out cb h w = rejected cb w"
  by (simp add: ConvertPlnToIfc_def admit_running)

lemma ConvertIfcToPln_running:
  "s_conversionInProgress (handler w) \<Longrightarrow> ConvertIfcToPln j p out cb h w = rejected cb w"
  by (simp add: ConvertIfcToPln_def admit_running)

lemma ConvertPlnToIfc_idle:
  "\<not> s_conversionInProgress (handler w) \<Longrightarrow>
   ConvertPlnToIfc j p out cb h w =
     from_error_label (ConvertPlnToIfc_try p out cb h (w\<lparr>handler := the (admit j (handler w))\<rparr>))"
  by (simp add: ConvertPlnToIfc_def admit_idle)

lemma ConvertIfcToPln_idle:
  "\<not> s_conversionInProgress (handler w) \<Longrightarrow>
   ConvertIfcToPln j p out cb h w =
     from_error_label (ConvertIfcToPln_try p out cb h (w\<lparr>handler := the (admit j (handler w))\<rparr>))"
  by (simp add: ConvertIfcToPln_def admit_idle)

lemma rejected_effect:
  "handler (snd (rejected cb w)) = handler w \<and> host_calls (snd (rejected cb w)) = host_calls w
   \<and> fst (rejected cb w) \<noteq> Returns True
   \<and> snd (rejected cb w) = snd (notify cb 0 ''Error: Another conversion is already in progress'' w)
   \<and> (fst (notify cb 0 ''Error: Another conversion is already in progress'' w) = None
        \<longrightarrow> fst (rejected cb w) = Returns False)"
proof (cases "notify cb 0 ''Error: Another conversion is already in progress'' w")
  case (Pair e w')
  have "handler w' = handler w" "host_calls w' = host_calls w"
    using handler_notify [of cb 0 "''Error: Another conversion is already in progress''" w]
      host_calls_notify [of cb 0 "''Error: Another conversion is already in progress''" w] Pair
    by simp_all
  with Pair show ?thesis
    by (cases e) (simp_all add: rejected_def)
qed

lemma handler_close_and_blank [simp]: "handler (close_and_blank w) = handler w"
  by (simp add: close_and_blank_def)

lemma host_calls_close_and_blank [simp]:
  "host_calls (close_and_blank w) = host_calls w @ [ProjectClose, NewProject]"
  by (simp add: close_and_blank_def)

lemma observer_close_and_blank [simp]: "observer (close_and_blank w) = observer w"
  by (simp add: close_and_blank_def)

lemma host_calls_reset_state [simp]: "host_calls (reset_state w) = host_calls w"
  by (simp add: reset_state_def)

lemma observer_reset_state [simp]: "observer (reset_state w) = observer w"
  by (simp add: reset_state_def)

lemma handler_reset_state [simp]:
  "handler (reset_state w) = (handler w)\<lparr>s_conversionInProgress := False, s_currentJobId := []\<rparr>"
  by (simp add: reset_state_def)

lemma from_error_label_Returns:
  "fst r = Returns success \<Longrightarrow>
     from_error_label r = (Returns success, reset_state (close_and_blank (snd r)))"
  by (cases r) (simp add: from_error_label_def)

lemma from_error_label_Throws: "fst r = Throws e \<Longrightarrow> from_error_label r = r"
  by (cases r) (simp add: from_error_label_def)

lemma fst_from_error_label [simp]: "fst (from_error_label r) = fst r"
  by (cases r) (simp add: from_error_label_def split: outcome.splits)

subsection \<open>Single-flight admission\<close>

lemma overlap_step_length [simp]: "length (snd (overlap_step calls i cfg)) = length (snd cfg)"
  by (simp add: overlap_step_def)

lemma overlap_run_Nil [simp]: "overlap_run calls [] cfg = cfg"
  by (simp add: overlap_run_def)

lemma overlap_run_Cons [simp]:
  "overlap_run calls (i # schedule) cfg = overlap_run calls schedule (overlap_step calls i cfg)"
  by (simp add: overlap_run_def)

lemma overlap_run_length [simp]: "length (snd (overlap_run calls schedule cfg)) = length (snd cfg)"
  by (induction schedule arbitrary: cfg) simp_all

text \<open>While the flag is set, a call at the admission test is rejected and changes nothing.\<close>

lemma overlap_step_busy:
  assumes "s_conversionInProgress st" "i < length ps \<longrightarrow> ps ! i = AtTest \<or> ps ! i = Rejected"
  shows "overlap_step calls i (st, ps) =
           (st, if i < length calls \<and> i < length ps then ps[i := Rejected] else ps)"
  using assms by (auto simp add: overlap_step_def)

lemma overlap_run_busy:
  assumes "s_conversionInProgress st"
    and "\<forall>i\<in>set schedule. i < length ps \<longrightarrow> ps ! i = AtTest \<or> ps ! i = Rejected"
  shows "fst (overlap_run calls schedule (st, ps)) = st
         \<and> (\<forall>i<length ps. snd (overlap_run calls schedule (st, ps)) ! i =
               (if i \<in> set schedule \<and> i < length calls then Rejected else ps ! i))"
  using assms(2)
proof (induction schedule arbitrary: ps)
  case Nil
  then show ?case by simp
next
  case (Cons k schedule)
  define ps' where "ps' = (if k < length calls \<and> k < length ps then ps[k := Rejected] else ps)"
  have step: "overlap_step calls k (st, ps) = (st, ps')"
    unfolding ps'_def using Cons.prems by (intro overlap_step_busy [OF assms(1)]) simp
  have len: "length ps' = length ps" by (simp add: ps'_def)
  have pre: "\<forall>i\<in>set schedule. i < length ps' \<longrightarrow> ps' ! i = AtTest \<or> ps' ! i = Rejected"
    using Cons.prems by (auto simp add: ps'_def nth_list_update)
  from Cons.IH [OF pre] have ih: "fst (overlap_run calls schedule (st, ps')) = st"
    "\<forall>i<length ps. snd (overlap_run calls schedule (st, ps')) ! i =
         (if i \<in> set schedule \<and> i < length calls then Rejected else ps' ! i)"
    by (simp_all add: len)
  show ?case
  proof (intro conjI allI impI)
    show "fst (overlap_run calls (k # schedule) (st, ps)) = st"
      using ih(1) by (simp add: step)
    fix i assume i: "i < length ps"
    show "snd (overlap_run calls (k # schedule) (st, ps)) ! i =
        (if i \<in> set (k # schedule) \<and> i < length calls then Rejected else ps ! i)"
      using ih(2) i by (auto simp add: step ps'_def nth_list_update)
  qed
qed

text \<open>
  The invariant of schedules with atomic admission: at most one call is in flight, and the
  flag is set while a call holds it.
\<close>

lemma others_conv:
  "x \<in> set (take i ps @ drop (Suc i) ps) \<longleftrightarrow> (\<exists>j<length ps. j \<noteq> i \<and> ps ! j = x)"
proof
  assume "x \<in> set (take i ps @ drop (Suc i) ps)"
  then consider "x \<in> set (take i ps)" | "x \<in> set (drop (Suc i) ps)" by auto
  then show "\<exists>j<length ps. j \<noteq> i \<and> ps ! j = x"
  proof cases
    case 1
    then obtain j where "j < length (take i ps)" "take i ps ! j = x"
      by (auto simp add: in_set_conv_nth)
    then show ?thesis by (intro exI [of _ j]) auto
  next
    case 2
    then obtain j where "j < length (drop (Suc i) ps)" "drop (Suc i) ps ! j = x"
      by (auto simp add: in_set_conv_nth)
    then show ?thesis by (intro exI [of _ "Suc i + j"]) auto
  qed
next
  assume "\<exists>j<length ps. j \<noteq> i \<and> ps ! j = x"
  then obtain j where j: "j < length ps" "j \<noteq> i" "ps ! j = x" by blast
  show "x \<in> set (take i ps @ drop (Suc i) ps)"
  proof (cases "j < i")
    case True
    with j have "take i ps ! j = x" "j < length (take i ps)" by simp_all
    then have "x \<in> set (take i ps)" by (metis nth_mem)
    then show ?thesis by simp
  next
    case False
    with j obtain d where d: "j = Suc i + d" by (metis less_imp_Suc_add linorder_neqE_nat add_Suc)
    with j have "drop (Suc i) ps ! d = x" "d < length (drop (Suc i) ps)" by simp_all
    then have "x \<in> set (drop (Suc i) ps)" by (metis nth_mem)
    then show ?thesis by simp
  qed
qed

lemma in_flight_cases: "in_flight p \<longleftrightarrow> p = AtSetInProgress \<or> holds_flag p"
  by (cases p) simp_all

lemma atomic_step_invariant:
  assumes one: "\<forall>i<length ps. \<forall>j<length ps. in_flight (ps ! i) \<longrightarrow> in_flight (ps ! j) \<longrightarrow> i = j"
    and flag: "(\<exists>i<length ps. holds_flag (ps ! i)) \<longrightarrow> s_conversionInProgress st"
    and atomic: "AtSetInProgress \<notin> set (take k ps @ drop (Suc k) ps)"
  shows "(\<forall>i<length ps. \<forall>j<length ps.
            in_flight (snd (overlap_step calls k (st, ps)) ! i) \<longrightarrow>
            in_flight (snd (overlap_step calls k (st, ps)) ! j) \<longrightarrow> i = j)
         \<and> ((\<exists>i<length ps. holds_flag (snd (overlap_step calls k (st, ps)) ! i)) \<longrightarrow>
              s_conversionInProgress (fst (overlap_step calls k (st, ps))))"
proof (cases "k < length calls \<and> k < length ps")
  case False
  with one flag show ?thesis by (auto simp add: overlap_step_def)
next
  case True
  then have k: "k < length ps" "k < length calls" by simp_all
  have others: "\<forall>j<length ps. j \<noteq> k \<longrightarrow> ps ! j \<noteq> AtSetInProgress"
    using atomic unfolding others_conv by blast
  let ?q = "fst (call_step (calls ! k) (ps ! k) st)"
  let ?st = "snd (call_step (calls ! k) (ps ! k) st)"
  have step: "overlap_step calls k (st, ps) = (?st, ps[k := ?q])"
    using k by (simp add: overlap_step_def)
  have nth: "ps[k := ?q] ! i = (if i = k then ?q else ps ! i)" if "i < length ps" for i
    using that k by (simp add: nth_list_update)
  show ?thesis
  proof (cases "ps ! k")
    case AtTest
    show ?thesis
    proof (cases "s_conversionInProgress st")
      case True
      with AtTest one flag show ?thesis
        unfolding step by (auto simp add: nth_list_update k split: if_splits)
    next
      case False
      with flag have none: "\<forall>j<length ps. \<not> holds_flag (ps ! j)" by blast
      with others have "\<forall>j<length ps. j \<noteq> k \<longrightarrow> \<not> in_flight (ps ! j)"
        by (auto simp add: in_flight_cases)
      with AtTest False none show ?thesis
        unfolding step by (auto simp add: nth_list_update k split: if_splits)
    qed
  next
    case AtSetInProgress
    with one k show ?thesis
      unfolding step by (auto simp add: nth_list_update k split: if_splits)
  next
    case AtSetJobId
    with one flag k show ?thesis
      unfolding step by (auto simp add: nth_list_update k split: if_splits)
  next
    case AtSetCancel
    with one flag k show ?thesis
      unfolding step by (auto simp add: nth_list_update k split: if_splits)
  next
    case InTry
    with one flag k show ?thesis
      unfolding step by (cases "call_try (calls ! k)") (auto simp add: nth_list_update k split: if_splits)
  next
    case (AtResetInProgress b)
    with one k have "\<forall>j<length ps. j \<noteq> k \<longrightarrow> \<not> in_flight (ps ! j)"
      by (metis in_flight.simps(5))
    then have "\<forall>j<length ps. j \<noteq> k \<longrightarrow> \<not> holds_flag (ps ! j)"
      by (auto simp add: in_flight_cases)
    with AtResetInProgress one k show ?thesis
      unfolding step by (auto simp add: nth_list_update k split: if_splits)
  next
    case (AtResetJobId b)
    with one flag k show ?thesis
      unfolding step by (auto simp add: nth_list_update k split: if_splits)
  next
    case Rejected
    with one flag k show ?thesis
      unfolding step by (auto simp add: nth_list_update k split: if_splits)
  next
    case (Exited r)
    with one flag k show ?thesis
      unfolding step by (auto simp add: nth_list_update k split: if_splits)
  qed
qed

lemma atomic_run_invariant:
  assumes "atomic_admission calls schedule (st, ps)"
    and "\<forall>i<length ps. \<forall>j<length ps. in_flight (ps ! i) \<longrightarrow> in_flight (ps ! j) \<longrightarrow> i = j"
    and "(\<exists>i<length ps. holds_flag (ps ! i)) \<longrightarrow> s_conversionInProgress st"
  shows "\<forall>i<length ps. \<forall>j<length ps.
            in_flight (snd (overlap_run calls schedule (st, ps)) ! i) \<longrightarrow>
            in_flight (snd (overlap_run calls schedule (st, ps)) ! j) \<longrightarrow> i = j"
  using assms
proof (induction schedule arbitrary: st ps)
  case Nil
  then show ?case by simp
next
  case (Cons k schedule)
  obtain st' ps' where step: "overlap_step calls k (st, ps) = (st', ps')"
    by (cases "overlap_step calls k (st, ps)")
  have len: "length ps' = length ps"
    using overlap_step_length [of calls k "(st, ps)"] step by simp
  from Cons.prems(1) have atomic: "AtSetInProgress \<notin> set (take k ps @ drop (Suc k) ps)"
    and rest: "atomic_admission calls schedule (st', ps')"
    by (simp_all add: step)
  from atomic_step_invariant [OF Cons.prems(2,3) atomic, of calls]
  have "\<forall>i<length ps'. \<forall>j<length ps'. in_flight (ps' ! i) \<longrightarrow> in_flight (ps' ! j) \<longrightarrow> i = j"
    and "(\<exists>i<length ps'. holds_flag (ps' ! i)) \<longrightarrow> s_conversionInProgress st'"
    by (simp_all add: step len)
  from Cons.IH [OF rest this] show ?case
    by (simp add: step len)
qed

lemma atomic_admission_take:
  "atomic_admission calls schedule cfg \<Longrightarrow> atomic_admission calls (take k schedule) cfg"
proof (induction schedule arbitrary: cfg k)
  case Nil
  then show ?case by simp
next
  case (Cons i schedule)
  then show ?case by (cases k) simp_all
qed

lemma at_most_one:
  assumes "\<forall>i<length ps. \<forall>j<length ps. P (ps ! i) \<longrightarrow> P (ps ! j) \<longrightarrow> i = j"
  shows "length (filter P ps) \<le> 1"
  using assms
proof (induction ps)
  case Nil
  then show ?case by simp
next
  case (Cons p ps)
  have tail: "\<forall>i<length ps. \<forall>j<length ps. P (ps ! i) \<longrightarrow> P (ps ! j) \<longrightarrow> i = j"
  proof (intro allI impI)
    fix i j assume "i < length ps" "j < length ps" "P (ps ! i)" "P (ps ! j)"
    with Cons.prems [rule_format, of "Suc i" "Suc j"] show "i = j" by simp
  qed
  show ?case
  proof (cases "P p")
    case False
    with Cons.IH [OF tail] show ?thesis by simp
  next
    case True
    have "\<not> P x" if "x \<in> set ps" for x
    proof
      assume "P x"
      from that obtain i where "i < length ps" "ps ! i = x" by (auto simp add: in_set_conv_nth)
      with Cons.prems [rule_format, of 0 "Suc i"] True \<open>P x\<close> show False by simp
    qed
    then have "filter P ps = []" by (simp add: filter_empty_conv)
    with True show ?thesis by simp
  qed
qed

lemma atomic_admission_single_flight:
  assumes "atomic_admission calls schedule (st, replicate n AtTest)"
  shows "length (filter in_flight (snd (overlap_run calls (take k schedule) (st, replicate n AtTest)))) \<le> 1"
proof -
  have "\<forall>i<length (replicate n AtTest). \<forall>j<length (replicate n AtTest).
          in_flight (snd (overlap_run calls (take k schedule) (st, replicate n AtTest)) ! i) \<longrightarrow>
          in_flight (snd (overlap_run calls (take k schedule) (st, replicate n AtTest)) ! j) \<longrightarrow> i = j"
    by (rule atomic_run_invariant [OF atomic_admission_take [OF assms]]) auto
  then show ?thesis
    by (intro at_most_one) simp
qed

text \<open>
  The steps of a call that runs alone are the conversion: they end in the job state that
  \<^verbatim>\<open>ConvertPlnToIfc\<close> (\<^verbatim>\<open>ConvertIfcToPln\<close>) leaves, with the call rejected or left with the
  result of the conversion.
\<close>

lemma fst_PlnToIfc_try_handler_update:
  "fst (ConvertPlnToIfc_try p out cb h (w\<lparr>handler := st\<rparr>)) = fst (ConvertPlnToIfc_try p out cb h w)"
  by (simp add: PlnToIfc_try_handler_update)

lemma fst_IfcToPln_try_handler_update:
  "fst (ConvertIfcToPln_try p out cb h (w\<lparr>handler := st\<rparr>)) = fst (ConvertIfcToPln_try p out cb h w)"
  by (simp add: IfcToPln_try_handler_update)

lemma call_alone:
  assumes "call_try c = fst t" "handler (snd t) = (handler w)\<lparr>s_conversionInProgress := True,
      s_currentJobId := call_jobId c, s_shouldCancel := False\<rparr>"
    and "\<not> s_conversionInProgress (handler w)"
  shows "overlap_run [c] [0, 0, 0, 0, 0, 0, 0] (handler w, [AtTest]) =
           (handler (snd (from_error_label t)), [Exited (fst (from_error_label t))])"
proof (cases t)
  case (Pair r w')
  with assms show ?thesis
    by (cases r) (simp_all add: overlap_step_def from_error_label_def)
qed

lemma ConvertPlnToIfc_in_steps:
  "overlap_run [\<lparr>call_jobId = jobId, call_try = fst (ConvertPlnToIfc_try p out cb h w)\<rparr>]
       [0, 0, 0, 0, 0, 0, 0] (handler w, [AtTest]) =
     (handler (snd (ConvertPlnToIfc jobId p out cb h w)),
      [if s_conversionInProgress (handler w) then Rejected
       else Exited (fst (ConvertPlnToIfc jobId p out cb h w))])"
proof (cases "s_conversionInProgress (handler w)")
  case True
  then show ?thesis
    by (simp add: overlap_step_def ConvertPlnToIfc_running rejected_effect)
next
  case False
  let ?c = "\<lparr>call_jobId = jobId, call_try = fst (ConvertPlnToIfc_try p out cb h w)\<rparr>"
  let ?t = "ConvertPlnToIfc_try p out cb h (w\<lparr>handler := the (admit jobId (handler w))\<rparr>)"
  have "overlap_run [?c] [0, 0, 0, 0, 0, 0, 0] (handler w, [AtTest]) =
           (handler (snd (from_error_label ?t)), [Exited (fst (from_error_label ?t))])"
    using False
    by (intro call_alone) (simp_all add: fst_PlnToIfc_try_handler_update handler_PlnToIfc_try admit_idle)
  with False show ?thesis
    by (simp add: ConvertPlnToIfc_idle)
qed

lemma ConvertIfcToPln_in_steps:
  "overlap_run [\<lparr>call_jobId = jobId, call_try = fst (ConvertIfcToPln_try p out cb h w)\<rparr>]
       [0, 0, 0, 0, 0, 0, 0] (handler w, [AtTest]) =
     (handler (snd (ConvertIfcToPln jobId p out cb h w)),
      [if s_conversionInProgress (handler w) then Rejected
       else Exited (fst (ConvertIfcToPln jobId p out cb h w))])"
proof (cases "s_conversionInProgress (handler w)")
  case True
  then show ?thesis
    by (simp add: overlap_step_def ConvertIfcToPln_running rejected_effect)
next
  case False
  let ?c = "\<lparr>call_jobId = jobId, call_try = fst (ConvertIfcToPln_try p out cb h w)\<rparr>"
  let ?t = "ConvertIfcToPln_try p out cb h (w\<lparr>handler := the (admit jobId (handler w))\<rparr>)"
  have "overlap_run [?c] [0, 0, 0, 0, 0, 0, 0] (handler w, [AtTest]) =
           (handler (snd (from_error_label ?t)), [Exited (fst (from_error_label ?t))])"
    using False
    by (intro call_alone) (simp_all add: fst_IfcToPln_try_handler_update handler_IfcToPln_try admit_idle)
  with False show ?thesis
    by (simp add: ConvertIfcToPln_idle)
qed

text \<open>
  Claim C1 as stated admits at most one of any set of start requests issued at the same
  time. The test of the flag (line 63) and its assignment (line 71) are separate statements
  on a plain static variable. Two calls that both test before either assigns are both
  admitted: they run their \<^verbatim>\<open>try\<close> statements at the same time, the job state names only the
  second, and both return true.
\<close>

theorem concurrent_starts_both_admitted_counterexample:
  "overlap_run [\<lparr>call_jobId = ''J1'', call_try = Returns True\<rparr>,
                \<lparr>call_jobId = ''J2'', call_try = Returns True\<rparr>]
       [0, 1, 0, 0, 0, 1, 1, 1] (initial_handler, [AtTest, AtTest])
     = (\<lparr>s_currentJobId = ''J2'', s_conversionInProgress = True, s_shouldCancel = False\<rparr>,
        [InTry, InTry])
   \<and> length (filter in_flight [InTry, InTry]) = 2
   \<and> overlap_run [\<lparr>call_jobId = ''J1'', call_try = Returns True\<rparr>,
                  \<lparr>call_jobId = ''J2'', call_try = Returns True\<rparr>]
       [0, 1, 0, 0, 0, 1, 1, 1, 0, 0, 0, 1, 1, 1] (initial_handler, [AtTest, AtTest])
     = (initial_handler, [Exited (Returns True), Exited (Returns True)])"
  by (simp add: overlap_step_def initial_handler_def)

text \<open>
  Claim C1, amended. The job state names at most one running job: two job ids that are both
  reported in progress are equal. A call of \<^verbatim>\<open>ConvertPlnToIfc\<close> or \<^verbatim>\<open>ConvertIfcToPln\<close> that
  finds \<^verbatim>\<open>s_conversionInProgress\<close> set calls its callback once and does not return true (it
  returns false, unless the callback throws); it leaves the job state and the host
  untouched. So of any set of calls whose admission tests run while the flag is set, in any
  order and overlapping in any way, none is admitted, and the job state stays as it was.
  From any state, at most one call is in flight at any instant provided admission is one
  step, that is, no call takes a step between another call's test of the flag and its
  assignment; this is so when the host runs the calls one after another on its main thread.
\<close>

theorem single_flight_admission:
  "(IsConversionInProgress j1 st \<and> IsConversionInProgress j2 st \<longrightarrow> j1 = j2)
   \<and> (s_conversionInProgress (handler w) \<longrightarrow>
        ConvertPlnToIfc jobId inputPath outputPath onProgress h w = rejected onProgress w
        \<and> ConvertIfcToPln jobId inputPath outputPath onProgress h w = rejected onProgress w
        \<and> fst (rejected onProgress w) \<noteq> Returns True
        \<and> (fst (notify onProgress 0 ''Error: Another conversion is already in progress'' w) = None
             \<longrightarrow> fst (rejected onProgress w) = Returns False)
        \<and> snd (rejected onProgress w) =
             snd (notify onProgress 0 ''Error: Another conversion is already in progress'' w)
        \<and> handler (snd (rejected onProgress w)) = handler w
        \<and> host_calls (snd (rejected onProgress w)) = host_calls w)
   \<and> (s_conversionInProgress st
        \<and> (\<forall>i\<in>set schedule. i < length ps \<longrightarrow> ps ! i = AtTest \<or> ps ! i = Rejected) \<longrightarrow>
        fst (overlap_run calls schedule (st, ps)) = st
        \<and> (\<forall>i<length ps. snd (overlap_run calls schedule (st, ps)) ! i =
              (if i \<in> set schedule \<and> i < length calls then Rejected else ps ! i)))
   \<and> (atomic_admission calls schedule (st, replicate n AtTest) \<longrightarrow>
        length (filter in_flight
          (snd (overlap_run calls (take k schedule) (st, replicate n AtTest)))) \<le> 1)"
proof (intro conjI impI)
  show "j1 = j2" if "IsConversionInProgress j1 st \<and> IsConversionInProgress j2 st"
    using that by (auto simp add: IsConversionInProgress_def)
next
  assume run: "s_conversionInProgress (handler w)"
  show "ConvertPlnToIfc jobId inputPath outputPath onProgress h w = rejected onProgress w"
    using run by (rule ConvertPlnToIfc_running)
  show "ConvertIfcToPln jobId inputPath outputPath onProgress h w = rejected onProgress w"
    using run by (rule ConvertIfcToPln_running)
  show "fst (rejected onProgress w) \<noteq> Returns True"
    using rejected_effect [of onProgress w] by simp
  show "fst (rejected onProgress w) = Returns False"
    if "fst (notify onProgress 0 ''Error: Another conversion is already in progress'' w) = None"
    using rejected_effect [of onProgress w] that by simp
  show "snd (rejected onProgress w) =
             snd (notify onProgress 0 ''Error: Another conversion is already in progress'' w)"
    using rejected_effect [of onProgress w] by simp
  show "handler (snd (rejected onProgress w)) = handler w"
    using rejected_effect [of onProgress w] by simp
  show "host_calls (snd (rejected onProgress w)) = host_calls w"
    using rejected_effect [of onProgress w] by simp
next
  assume a: "s_conversionInProgress st
        \<and> (\<forall>i\<in>set schedule. i < length ps \<longrightarrow> ps ! i = AtTest \<or> ps ! i = Rejected)"
  from overlap_run_busy [of st schedule ps calls] a
  show "fst (overlap_run calls schedule (st, ps)) = st"
    and "\<forall>i<length ps. snd (overlap_run calls schedule (st, ps)) ! i =
              (if i \<in> set schedule \<and> i < length calls then Rejected else ps ! i)"
    by simp_all
next
  assume "atomic_admission calls schedule (st, replicate n AtTest)"
  then show "length (filter in_flight
          (snd (overlap_run calls (take k schedule) (st, replicate n AtTest)))) \<le> 1"
    by (rule atomic_admission_single_flight)
qed

theorem single_flight_admission_witness:
  "IsConversionInProgress ''J1'' \<lparr>s_currentJobId = ''J1'', s_conversionInProgress = True, s_shouldCancel = False\<rparr>
   \<and> s_conversionInProgress (handler \<lparr>handler = \<lparr>s_currentJobId = ''J1'', s_conversionInProgress = True,
          s_shouldCancel = False\<rparr>, host_calls = [], observer = []\<rparr>)
   \<and> ConvertPlnToIfc ''J2'' ''a.pln'' ''b.ifc'' (Some (\<lambda>p m log. (None, log @ [(p, m)])))
        \<lparr>file_status = Returns 0, open_project = Returns 0, translators = Returns (0, 1),
          save_project = Returns 0\<rparr>
        \<lparr>handler = \<lparr>s_currentJobId = ''J1'', s_conversionInProgress = True, s_shouldCancel = False\<rparr>,
          host_calls = [], observer = []\<rparr>
      = (Returns False,
         \<lparr>handler = \<lparr>s_currentJobId = ''J1'', s_conversionInProgress = True, s_shouldCancel = False\<rparr>,
          host_calls = [], observer = [(0, ''Error: Another conversion is already in progress'')]\<rparr>)
   \<and> overlap_run [\<lparr>call_jobId = ''J1'', call_try = Returns True\<rparr>,
                  \<lparr>call_jobId = ''J2'', call_try = Returns True\<rparr>,
                  \<lparr>call_jobId = ''J3'', call_try = Returns True\<rparr>]
        [1, 2, 1]
        (\<lparr>s_currentJobId = ''J1'', s_conversionInProgress = True, s_shouldCancel = False\<rparr>,
         [InTry, AtTest, AtTest])
      = (\<lparr>s_currentJobId = ''J1'', s_conversionInProgress = True, s_shouldCancel = False\<rparr>,
         [InTry, Rejected, Rejected])
   \<and> atomic_admission [\<lparr>call_jobId = ''J1'', call_try = Returns True\<rparr>,
                       \<lparr>call_jobId = ''J2'', call_try = Returns True\<rparr>]
        [0, 0, 1, 0, 0, 0, 0, 0] (initial_handler, replicate 2 AtTest)
   \<and> overlap_run [\<lparr>call_jobId = ''J1'', call_try = Returns True\<rparr>,
                  \<lparr>call_jobId = ''J2'', call_try = Returns True\<rparr>]
        (take 3 [0, 0, 1, 0, 0, 0, 0, 0]) (initial_handler, replicate 2 AtTest)
      = (\<lparr>s_currentJobId = [], s_conversionInProgress = True, s_shouldCancel = False\<rparr>,
         [AtSetJobId, Rejected])"
proof -
  let ?running = "\<lparr>s_currentJobId = ''J1'', s_conversionInProgress = True, s_shouldCancel = False\<rparr>"
  let ?w = "\<lparr>handler = ?running, host_calls = [], observer = []\<rparr>"
  let ?cb = "Some (\<lambda>p m log. (None, log @ [(p::int, m::string)]))"
  let ?h = "\<lparr>file_status = Returns 0, open_project = Returns 0, translators = Returns (0, 1),
          save_project = Returns 0\<rparr>"
  let ?three = "[\<lparr>call_jobId = ''J1'', call_try = Returns True\<rparr>,
                  \<lparr>call_jobId = ''J2'', call_try = Returns True\<rparr>,
                  \<lparr>call_jobId = ''J3'', call_try = Returns True\<rparr>]"
  let ?two = "[\<lparr>call_jobId = ''J1'', call_try = Returns True\<rparr>,
                  \<lparr>call_jobId = ''J2'', call_try = Returns True\<rparr>]"
  have atomic: "atomic_admission ?two [0, 0, 1, 0, 0, 0, 0, 0] (initial_handler, replicate 2 AtTest)"
    by (simp add: overlap_step_def initial_handler_def numeral_2_eq_2)
  show ?thesis
    using single_flight_admission [where ?j1.0 = "''J1''" and ?j2.0 = "''J1''" and st = ?running
        and w = ?w and jobId = "''J2''" and inputPath = "''a.pln''" and outputPath = "''b.ifc''"
        and onProgress = ?cb and h = ?h and calls = ?three and schedule = "[1, 2, 1]"
        and ps = "[InTry, AtTest, AtTest]" and n = 0 and k = 0]
      single_flight_admission [where ?j1.0 = "''J1''" and ?j2.0 = "''J1''" and st = initial_handler
        and w = ?w and jobId = "''J2''" and inputPath = "''a.pln''" and outputPath = "''b.ifc''"
        and onProgress = ?cb and h = ?h and calls = ?two and schedule = "[0, 0, 1, 0, 0, 0, 0, 0]"
        and ps = "[]" and n = 2 and k = 3]
      atomic
    by (simp add: IsConversionInProgress_def rejected_def notify_def overlap_step_def
        initial_handler_def numeral_2_eq_2 numeral_3_eq_3)
qed

subsection \<open>Cleanup\<close>

text \<open>
  Every admitted conversion that returns has made the two host calls of the cleanup last
  and leaves the job state Idle, whatever the host answered or threw and whatever the
  callback did inside the \<^verbatim>\<open>try\<close> block.
\<close>

lemma cleanup_on_every_return:
  assumes "\<not> s_conversionInProgress (handler w)"
  shows "(fst (ConvertPlnToIfc jobId inputPath outputPath onProgress h w) = Returns success \<longrightarrow>
            (\<exists>cs. host_calls (snd (ConvertPlnToIfc jobId inputPath outputPath onProgress h w)) =
                host_calls w @ cs @ [ProjectClose, NewProject])
            \<and> \<not> s_conversionInProgress (handler (snd (ConvertPlnToIfc jobId inputPath outputPath onProgress h w)))
            \<and> s_currentJobId (handler (snd (ConvertPlnToIfc jobId inputPath outputPath onProgress h w))) = [])
         \<and> (fst (ConvertIfcToPln jobId inputPath outputPath onProgress h w) = Returns success \<longrightarrow>
            (\<exists>cs. host_calls (snd (ConvertIfcToPln jobId inputPath outputPath onProgress h w)) =
                host_calls w @ cs @ [ProjectClose, NewProject])
            \<and> \<not> s_conversionInProgress (handler (snd (ConvertIfcToPln jobId inputPath outputPath onProgress h w)))
            \<and> s_currentJobId (handler (snd (ConvertIfcToPln jobId inputPath outputPath onProgress h w))) = [])"
proof -
  let ?w1 = "w\<lparr>handler := the (admit jobId (handler w))\<rparr>"
  obtain cs where cs: "host_calls (snd (ConvertPlnToIfc_try inputPath outputPath onProgress h ?w1)) =
      host_calls ?w1 @ cs"
    using host_calls_PlnToIfc_try by blast
  obtain ds where ds: "host_calls (snd (ConvertIfcToPln_try inputPath outputPath onProgress h ?w1)) =
      host_calls ?w1 @ ds"
    using host_calls_IfcToPln_try by blast
  show ?thesis
    using cs ds
    by (auto simp add: ConvertPlnToIfc_idle [OF assms] ConvertIfcToPln_idle [OF assms]
        from_error_label_Returns)
qed

text \<open>
  An admitted conversion that is left by an exception leaves the job state as it was inside
  the \<^verbatim>\<open>try\<close> statement: its job is still recorded as running.
\<close>

lemma left_by_exception:
  "(fst (ConvertPlnToIfc jobId inputPath outputPath onProgress h w) = Throws e
      \<and> \<not> s_conversionInProgress (handler w) \<longrightarrow>
        handler (snd (ConvertPlnToIfc jobId inputPath outputPath onProgress h w)) =
          (handler w)\<lparr>s_conversionInProgress := True, s_currentJobId := jobId, s_shouldCancel := False\<rparr>)
   \<and> (fst (ConvertIfcToPln jobId inputPath outputPath onProgress h w) = Throws e
      \<and> \<not> s_conversionInProgress (handler w) \<longrightarrow>
        handler (snd (ConvertIfcToPln jobId inputPath outputPath onProgress h w)) =
          (handler w)\<lparr>s_conversionInProgress := True, s_currentJobId := jobId, s_shouldCancel := False\<rparr>)"
  by (auto simp add: ConvertPlnToIfc_idle ConvertIfcToPln_idle from_error_label_Throws
      handler_PlnToIfc_try handler_IfcToPln_try admit_idle)

text \<open>
  Claim C2 on a callback that throws. The two conversions below would succeed; their
  callback throws on every call. The exception of the first call (20 percent) is caught by
  the handler of the \<^verbatim>\<open>try\<close> block, which calls the callback again, outside any \<^verbatim>\<open>try\<close>: the
  second exception leaves the function. The project is not closed, no blank template is
  opened, and the job state still says that \<^verbatim>\<open>J1\<close> is running, so that the next start is
  rejected. The comment at the label \<^verbatim>\<open>error\<close> (line 248) reads: ALWAYS close the project after
  conversion (success or failure).
\<close>

theorem cleanup_skipped_when_callback_throws:
  "ConvertPlnToIfc ''J1'' ''a.pln'' ''b.ifc''
      (Some (\<lambda>p m log. (Some (StdException ''client gone''), log @ [(p, m)])))
      \<lparr>file_status = Returns 0, open_project = Returns 0, translators = Returns (0, 1),
        save_project = Returns 0\<rparr>
      \<lparr>handler = initial_handler, host_calls = [], observer = []\<rparr>
    = (Throws (StdException ''client gone''),
       \<lparr>handler = \<lparr>s_currentJobId = ''J1'', s_conversionInProgress = True, s_shouldCancel = False\<rparr>,
        host_calls = [FileGetStatus ''a.pln''],
        observer = [(20, ''Closing current project''), (0, ''Error: client gone'')]\<rparr>)
   \<and> ConvertIfcToPln ''J1'' ''a.ifc'' ''b.pln''
      (Some (\<lambda>p m log. (Some (StdException ''client gone''), log @ [(p, m)])))
      \<lparr>file_status = Returns 0, open_project = Returns 0, translators = Returns (0, 1),
        save_project = Returns 0\<rparr>
      \<lparr>handler = initial_handler, host_calls = [], observer = []\<rparr>
    = (Throws (StdException ''client gone''),
       \<lparr>handler = \<lparr>s_currentJobId = ''J1'', s_conversionInProgress = True, s_shouldCancel = False\<rparr>,
        host_calls = [FileGetStatus ''a.ifc''],
        observer = [(20, ''Closing current project''), (0, ''Error: client gone'')]\<rparr>)
   \<and> ConvertPlnToIfc ''J2'' ''c.pln'' ''d.ifc'' None
      \<lparr>file_status = Returns 0, open_project = Returns 0, translators = Returns (0, 1),
        save_project = Returns 0\<rparr>
      \<lparr>handler = \<lparr>s_currentJobId = ''J1'', s_conversionInProgress = True, s_shouldCancel = False\<rparr>,
        host_calls = [FileGetStatus ''a.pln''],
        observer = [(20, ''Closing current project''), (0, ''Error: client gone'')]\<rparr>
    = (Returns False,
       \<lparr>handler = \<lparr>s_currentJobId = ''J1'', s_conversionInProgress = True, s_shouldCancel = False\<rparr>,
        host_calls = [FileGetStatus ''a.pln''],
        observer = [(20, ''Closing current project''), (0, ''Error: client gone'')]\<rparr>)"
  by (simp add: ConvertPlnToIfc_def ConvertIfcToPln_def ConvertPlnToIfc_try_def ConvertIfcToPln_try_def
      ConvertPlnToIfc_block_def ConvertIfcToPln_block_def on_progress_def fail_def outer_catch_def
      notify_def call_host_def admit_def rejected_def from_error_label_def initial_handler_def
      NoError_def)

subsection \<open>Cancelling a job\<close>



subsection \<open>The empty job id\<close>

text \<open>
  Claim C10. A conversion started with the empty job id on an idle handler is admitted: the
  \<^verbatim>\<open>try\<close> statement runs, and it runs in the state in which \<^verbatim>\<open>IsConversionInProgress("")\<close> is
  true and \<^verbatim>\<open>CancelConversion("")\<close> returns true and sets the cancel flag.
\<close>

theorem empty_job_id_addressable:
  assumes "\<not> s_conversionInProgress (handler w)"
  shows "admit [] (handler w) = Some ((handler w)\<lparr>s_conversionInProgress := True, s_currentJobId := [],
            s_shouldCancel := False\<rparr>)
         \<and> handler (snd (ConvertPlnToIfc_try inputPath outputPath onProgress h
               (w\<lparr>handler := the (admit [] (handler w))\<rparr>))) = the (admit [] (handler w))
         \<and> handler (snd (ConvertIfcToPln_try inputPath outputPath onProgress h
               (w\<lparr>handler := the (admit [] (handler w))\<rparr>))) = the (admit [] (handler w))
         \<and> ConvertPlnToIfc [] inputPath outputPath onProgress h w =
             from_error_label (ConvertPlnToIfc_try inputPath outputPath onProgress h
                     (w\<lparr>handler := the (admit [] (handler w))\<rparr>))
         \<and> ConvertIfcToPln [] inputPath outputPath onProgress h w =
             from_error_label (ConvertIfcToPln_try inputPath outputPath onProgress h
                     (w\<lparr>handler := the (admit [] (handler w))\<rparr>))
         \<and> IsConversionInProgress [] (the (admit [] (handler w)))
         \<and> CancelConversion [] (the (admit [] (handler w))) =
             (True, (the (admit [] (handler w)))\<lparr>s_shouldCancel := True\<rparr>)"
proof -
  have "ConvertPlnToIfc [] inputPath outputPath onProgress h w =
             from_error_label (ConvertPlnToIfc_try inputPath outputPath onProgress h
                     (w\<lparr>handler := the (admit [] (handler w))\<rparr>))"
    using assms by (rule ConvertPlnToIfc_idle)
  moreover have "ConvertIfcToPln [] inputPath outputPath onProgress h w =
             from_error_label (ConvertIfcToPln_try inputPath outputPath onProgress h
                     (w\<lparr>handler := the (admit [] (handler w))\<rparr>))"
    using assms by (rule ConvertIfcToPln_idle)
  moreover have "admit [] (handler w) = Some ((handler w)\<lparr>s_conversionInProgress := True,
      s_currentJobId := [], s_shouldCancel := False\<rparr>)"
    using assms by (rule admit_idle)
  ultimately show ?thesis
    by (simp add: handler_PlnToIfc_try handler_IfcToPln_try IsConversionInProgress_def
        CancelConversion_def)
qed

theorem empty_job_id_addressable_witness:
  "\<not> s_conversionInProgress (handler \<lparr>handler = initial_handler, host_calls = [], observer = ()\<rparr>)
   \<and> admit [] initial_handler =
        Some \<lparr>s_currentJobId = [], s_conversionInProgress = True, s_shouldCancel = False\<rparr>
   \<and> IsConversionInProgress [] \<lparr>s_currentJobId = [], s_conversionInProgress = True, s_shouldCancel = False\<rparr>
   \<and> CancelConversion [] \<lparr>s_currentJobId = [], s_conversionInProgress = True, s_shouldCancel = False\<rparr>
        = (True, \<lparr>s_currentJobId = [], s_conversionInProgress = True, s_shouldCancel = True\<rparr>)"
  using empty_job_id_addressable [where w = "\<lparr>handler = initial_handler, host_calls = [], observer = ()\<rparr>"]
  by (simp add: initial_handler_def admit_def)

subsection \<open>Cancellation during a conversion\<close>

lemma fold_cancel_running:
  "s_conversionInProgress st \<Longrightarrow>
   fold (\<lambda>j st. snd (CancelConversion j st)) js st =
     st\<lparr>s_shouldCancel := s_shouldCancel st \<or> s_currentJobId st \<in> set js\<rparr>"
proof (induction js arbitrary: st)
  case Nil
  then show ?case by simp
next
  case (Cons j js)
  then show ?case by (auto simp add: CancelConversion_def)
qed

lemma cancels_admitted:
  "s_conversionInProgress (handler w) \<Longrightarrow>
   cancels js w = w\<lparr>handler := (handler w)\<lparr>s_shouldCancel :=
       s_shouldCancel (handler w) \<or> s_currentJobId (handler w) \<in> set js\<rparr>\<rparr>"
  by (simp add: cancels_def fold_cancel_running)

lemma close_and_blank_handler_update:
  "close_and_blank (w\<lparr>handler := st\<rparr>) = (close_and_blank w)\<lparr>handler := st\<rparr>"
  by (simp add: close_and_blank_def call_host_def)

text \<open>
  A cancellation request that arrives between two statements of a \<^verbatim>\<open>try\<close> statement has the
  effect of one that arrives before it: it commutes with every statement.
\<close>

lemma notify_cancels: "notify cb p m (cancels js w) = apsnd (cancels js) (notify cb p m w)"
  by (simp add: cancels_def notify_def split: option.splits)

lemma call_host_cancels: "call_host c (cancels js w) = cancels js (call_host c w)"
  by (simp add: cancels_def call_host_def)

lemma PlnToIfc_try_cancels:
  "ConvertPlnToIfc_try p out cb h (cancels js w) = apsnd (cancels js) (ConvertPlnToIfc_try p out cb h w)"
  by (rule PlnToIfc_try_commute [where g = "cancels js"]) (simp_all add: notify_cancels call_host_cancels)

lemma IfcToPln_try_cancels:
  "ConvertIfcToPln_try p out cb h (cancels js w) = apsnd (cancels js) (ConvertIfcToPln_try p out cb h w)"
  by (rule IfcToPln_try_commute [where g = "cancels js"]) (simp_all add: notify_cancels call_host_cancels)

lemma cancelled_after_try:
  assumes "s_conversionInProgress st" "s_currentJobId st = jobId" "\<not> s_shouldCancel st"
  shows "from_error_label_cancelled js2 (apsnd (cancels js1) (apsnd (\<lambda>w. w\<lparr>handler := st\<rparr>) t)) =
     (fst (from_error_label (apsnd (\<lambda>w. w\<lparr>handler := st\<rparr>) t)),
      (snd (from_error_label (apsnd (\<lambda>w. w\<lparr>handler := st\<rparr>) t)))\<lparr>handler :=
         (handler (snd (from_error_label (apsnd (\<lambda>w. w\<lparr>handler := st\<rparr>) t))))
            \<lparr>s_shouldCancel := jobId \<in> set (js1 @ js2)\<rparr>\<rparr>)"
proof (cases t)
  case (Pair r w)
  show ?thesis
    using assms
    by (cases r)
       (auto simp add: Pair from_error_label_cancelled_def from_error_label_def cancels_admitted
          close_and_blank_handler_update reset_state_def)
qed

lemma ConvertPlnToIfc_cancelled_idle:
  assumes "\<not> s_conversionInProgress (handler w)"
  shows "ConvertPlnToIfc_cancelled js1 js2 jobId p out cb h w =
     (fst (ConvertPlnToIfc jobId p out cb h w),
      (snd (ConvertPlnToIfc jobId p out cb h w))\<lparr>handler :=
         (handler (snd (ConvertPlnToIfc jobId p out cb h w)))\<lparr>s_shouldCancel := jobId \<in> set (js1 @ js2)\<rparr>\<rparr>)"
  using assms
  by (simp add: ConvertPlnToIfc_cancelled_def ConvertPlnToIfc_def admit_idle PlnToIfc_try_cancels
      PlnToIfc_try_handler_update cancelled_after_try)

lemma ConvertIfcToPln_cancelled_idle:
  assumes "\<not> s_conversionInProgress (handler w)"
  shows "ConvertIfcToPln_cancelled js1 js2 jobId p out cb h w =
     (fst (ConvertIfcToPln jobId p out cb h w),
      (snd (ConvertIfcToPln jobId p out cb h w))\<lparr>handler :=
         (handler (snd (ConvertIfcToPln jobId p out cb h w)))\<lparr>s_shouldCancel := jobId \<in> set (js1 @ js2)\<rparr>\<rparr>)"
  using assms
  by (simp add: ConvertIfcToPln_cancelled_def ConvertIfcToPln_def admit_idle IfcToPln_try_cancels
      IfcToPln_try_handler_update cancelled_after_try)

text \<open>
  Claim C9. For every admitted conversion, cancellation requests that arrive while it runs
  (for any job ids, during the \<^verbatim>\<open>try\<close> statement and during the cleanup) change nothing but
  the cancel flag: the result (or the exception that leaves the conversion), the calls of the
  progress callback and the host calls are those of the undisturbed conversion, and the final
  state differs at most in \<^verbatim>\<open>s_shouldCancel\<close>, which is set exactly when one of the requests
  named the running job. The value the flag had before the admission has no effect either.
\<close>

theorem cancellation_changes_only_the_flag:
  assumes "\<not> s_conversionInProgress (handler w)"
  shows "fst (ConvertPlnToIfc_cancelled during_try during_cleanup jobId inputPath outputPath onProgress h w)
           = fst (ConvertPlnToIfc jobId inputPath outputPath onProgress h w)
         \<and> observer (snd (ConvertPlnToIfc_cancelled during_try during_cleanup jobId inputPath outputPath onProgress h w))
           = observer (snd (ConvertPlnToIfc jobId inputPath outputPath onProgress h w))
         \<and> host_calls (snd (ConvertPlnToIfc_cancelled during_try during_cleanup jobId inputPath outputPath onProgress h w))
           = host_calls (snd (ConvertPlnToIfc jobId inputPath outputPath onProgress h w))
         \<and> handler (snd (ConvertPlnToIfc_cancelled during_try during_cleanup jobId inputPath outputPath onProgress h w))
           = (handler (snd (ConvertPlnToIfc jobId inputPath outputPath onProgress h w)))
               \<lparr>s_shouldCancel := jobId \<in> set (during_try @ during_cleanup)\<rparr>
         \<and> fst (ConvertIfcToPln_cancelled during_try during_cleanup jobId inputPath outputPath onProgress h w)
           = fst (ConvertIfcToPln jobId inputPath outputPath onProgress h w)
         \<and> observer (snd (ConvertIfcToPln_cancelled during_try during_cleanup jobId inputPath outputPath onProgress h w))
           = observer (snd (ConvertIfcToPln jobId inputPath outputPath onProgress h w))
         \<and> host_calls (snd (ConvertIfcToPln_cancelled during_try during_cleanup jobId inputPath outputPath onProgress h w))
           = host_calls (snd (ConvertIfcToPln jobId inputPath outputPath onProgress h w))
         \<and> handler (snd (ConvertIfcToPln_cancelled during_try during_cleanup jobId inputPath outputPath onProgress h w))
           = (handler (snd (ConvertIfcToPln jobId inputPath outputPath onProgress h w)))
               \<lparr>s_shouldCancel := jobId \<in> set (during_try @ during_cleanup)\<rparr>
         \<and> ConvertPlnToIfc jobId inputPath outputPath onProgress h
               (w\<lparr>handler := (handler w)\<lparr>s_shouldCancel := flag\<rparr>\<rparr>)
           = ConvertPlnToIfc jobId inputPath outputPath onProgress h w
         \<and> ConvertIfcToPln jobId inputPath outputPath onProgress h
               (w\<lparr>handler := (handler w)\<lparr>s_shouldCancel := flag\<rparr>\<rparr>)
           = ConvertIfcToPln jobId inputPath outputPath onProgress h w"
  using assms
  by (simp add: ConvertPlnToIfc_cancelled_idle [OF assms] ConvertIfcToPln_cancelled_idle [OF assms]
      ConvertPlnToIfc_def ConvertIfcToPln_def admit_def)

theorem cancellation_changes_only_the_flag_witness:
  "\<not> s_conversionInProgress (handler \<lparr>handler = initial_handler, host_calls = [], observer = []\<rparr>)
   \<and> ConvertPlnToIfc_cancelled [''J1''] [] ''J1'' ''a.pln'' ''b.ifc'' (Some (\<lambda>p m log. (None, log @ [(p, m)])))
        \<lparr>file_status = Returns 0, open_project = Returns 0, translators = Returns (0, 1),
          save_project = Returns 0\<rparr>
        \<lparr>handler = initial_handler, host_calls = [], observer = []\<rparr>
      = (Returns True, \<lparr>handler = \<lparr>s_currentJobId = [], s_conversionInProgress = False, s_shouldCancel = True\<rparr>,
           host_calls = [FileGetStatus ''a.pln'', ProjectClose, ProjectOpen PlanFile ''a.pln'',
             GetIFCExportTranslatorsList, ProjectSave IfcFile ''b.ifc'', ProjectClose, NewProject],
           observer = [(20, ''Closing current project''), (30, ''Opening .pln project''),
             (50, ''Preparing IFC export''), (70, ''Exporting to IFC''),
             (100, ''Conversion completed successfully'')]\<rparr>)
   \<and> ConvertPlnToIfc ''J1'' ''a.pln'' ''b.ifc'' (Some (\<lambda>p m log. (None, log @ [(p, m)])))
        \<lparr>file_status = Returns 0, open_project = Returns 0, translators = Returns (0, 1),
          save_project = Returns 0\<rparr>
        \<lparr>handler = initial_handler, host_calls = [], observer = []\<rparr>
      = (Returns True, \<lparr>handler = \<lparr>s_currentJobId = [], s_conversionInProgress = False, s_shouldCancel = False\<rparr>,
           host_calls = [FileGetStatus ''a.pln'', ProjectClose, ProjectOpen PlanFile ''a.pln'',
             GetIFCExportTranslatorsList, ProjectSave IfcFile ''b.ifc'', ProjectClose, NewProject],
           observer = [(20, ''Closing current project''), (30, ''Opening .pln project''),
             (50, ''Preparing IFC export''), (70, ''Exporting to IFC''),
             (100, ''Conversion completed successfully'')]\<rparr>)"
  using cancellation_changes_only_the_flag [where w = "\<lparr>handler = initial_handler, host_calls = [], observer = []\<rparr>"
      and during_try = "[''J1'']" and during_cleanup = "[]" and jobId = "''J1''"
      and inputPath = "''a.pln''" and outputPath = "''b.ifc''"
      and onProgress = "Some (\<lambda>p m log. (None, log @ [(p, m)]))"
      and h = "\<lparr>file_status = Returns 0, open_project = Returns 0, translators = Returns (0, 1),
          save_project = Returns 0\<rparr>"]
  by (simp add: initial_handler_def ConvertPlnToIfc_cancelled_def ConvertPlnToIfc_def
      ConvertPlnToIfc_try_def ConvertPlnToIfc_block_def on_progress_def fail_def notify_def
      call_host_def NoError_def close_and_blank_def reset_state_def cancels_def CancelConversion_def
      admit_def from_error_label_def from_error_label_cancelled_def)

subsection \<open>Error events of the conversion commands\<close>

lemma execute_callback_returns: "fst (notify (execute_callback server jobId) p m w) = None"
  by (simp add: notify_def execute_callback_def)

lemma errors_notify_execute_callback:
  "filter is_error_event (observer (snd (notify (execute_callback server jobId) p m w))) =
     filter is_error_event (observer w)"
  by (simp add: notify_def execute_callback_def broadcast_def)

lemma errors_PlnToIfc_try:
  "filter is_error_event (observer (snd (ConvertPlnToIfc_try p out (execute_callback server jobId) h w))) =
     filter is_error_event (observer w)"
  by (rule PlnToIfc_try_preserves
        [where P = "\<lambda>w'. filter is_error_event (observer w') = filter is_error_event (observer w)"])
     (simp_all add: errors_notify_execute_callback)

lemma errors_IfcToPln_try:
  "filter is_error_event (observer (snd (ConvertIfcToPln_try p out (execute_callback server jobId) h w))) =
     filter is_error_event (observer w)"
  by (rule IfcToPln_try_preserves
        [where P = "\<lambda>w'. filter is_error_event (observer w') = filter is_error_event (observer w)"])
     (simp_all add: errors_notify_execute_callback)

lemma observer_from_error_label [simp]: "observer (snd (from_error_label r)) = observer (snd r)"
  by (cases r) (simp add: from_error_label_def split: outcome.splits)

lemma errors_ConvertPlnToIfc:
  "filter is_error_event (observer (snd (ConvertPlnToIfc jobId p out (execute_callback server jobId) h w))) =
     filter is_error_event (observer w)"
  by (cases "s_conversionInProgress (handler w)")
     (simp_all add: ConvertPlnToIfc_running ConvertPlnToIfc_idle rejected_effect errors_PlnToIfc_try
        errors_notify_execute_callback)

lemma errors_ConvertIfcToPln:
  "filter is_error_event (observer (snd (ConvertIfcToPln jobId p out (execute_callback server jobId) h w))) =
     filter is_error_event (observer w)"
  by (cases "s_conversionInProgress (handler w)")
     (simp_all add: ConvertIfcToPln_running ConvertIfcToPln_idle rejected_effect errors_IfcToPln_try
        errors_notify_execute_callback)

text \<open>With the callback of the commands no exception leaves a conversion.\<close>

lemma ConvertPlnToIfc_execute_returns:
  "\<exists>success. fst (ConvertPlnToIfc jobId p out (execute_callback server jobId) h w) = Returns success"
proof (cases "s_conversionInProgress (handler w)")
  case True
  then show ?thesis
    using rejected_effect [of "execute_callback server jobId" w]
    by (auto simp add: ConvertPlnToIfc_running execute_callback_returns)
next
  case False
  then show ?thesis
    using PlnToIfc_try_returns [of "execute_callback server jobId", OF execute_callback_returns]
    by (simp add: ConvertPlnToIfc_idle)
qed

lemma ConvertIfcToPln_execute_returns:
  "\<exists>success. fst (ConvertIfcToPln jobId p out (execute_callback server jobId) h w) = Returns success"
proof (cases "s_conversionInProgress (handler w)")
  case True
  then show ?thesis
    using rejected_effect [of "execute_callback server jobId" w]
    by (auto simp add: ConvertIfcToPln_running execute_callback_returns)
next
  case False
  then show ?thesis
    using IfcToPln_try_returns [of "execute_callback server jobId", OF execute_callback_returns]
    by (simp add: ConvertIfcToPln_idle)
qed

lemma handler_report_result [simp]: "handler (report_result server jobId out ok w) = handler w"
  by (simp add: report_result_def)

lemma observer_report_result:
  "observer (report_result True jobId out ok w) =
     observer w @ [if ok then SendCompletion jobId out else SendError jobId ''Conversion failed'']"
  by (simp add: report_result_def broadcast_def)

lemma ConversionCommand_Execute_unfold:
  "fst (ConversionCommand_Execute server jobId p out h w) =
      fst (ConvertPlnToIfc jobId p out (execute_callback server jobId) h w)
   \<and> (fst (ConvertPlnToIfc jobId p out (execute_callback server jobId) h w) = Returns success \<longrightarrow>
        snd (ConversionCommand_Execute server jobId p out h w) =
          report_result server jobId out success
            (snd (ConvertPlnToIfc jobId p out (execute_callback server jobId) h w)))"
  by (cases "ConvertPlnToIfc jobId p out (execute_callback server jobId) h w")
     (auto simp add: ConversionCommand_Execute_def split: outcome.splits)

lemma ConvertIfcToPlnCommand_Execute_unfold:
  "fst (ConvertIfcToPlnCommand_Execute server jobId p out h w) =
      fst (ConvertIfcToPln jobId p out (execute_callback server jobId) h w)
   \<and> (fst (ConvertIfcToPln jobId p out (execute_callback server jobId) h w) = Returns success \<longrightarrow>
        snd (ConvertIfcToPlnCommand_Execute server jobId p out h w) =
          report_result server jobId out success
            (snd (ConvertIfcToPln jobId p out (execute_callback server jobId) h w)))"
  by (cases "ConvertIfcToPln jobId p out (execute_callback server jobId) h w")
     (auto simp add: ConvertIfcToPlnCommand_Execute_def split: outcome.splits)

lemma handler_from_error_label_idle:
  "fst r = Returns success \<Longrightarrow>
     handler (snd (from_error_label r)) =
       (handler (snd r))\<lparr>s_conversionInProgress := False, s_currentJobId := []\<rparr>"
  by (simp add: from_error_label_Returns)

text \<open>
  Claim C3 as stated ends with the job back in the Idle state after every failure, a rejected
  start included. A start of job \<^verbatim>\<open>J1\<close> that is rejected because \<^verbatim>\<open>J1\<close> is running broadcasts one
  error event for \<^verbatim>\<open>J1\<close>, and \<^verbatim>\<open>J1\<close> is still in progress afterwards.
\<close>

theorem rejected_start_not_idle_counterexample:
  "ConversionCommand_Execute True ''J1'' ''a.pln'' ''b.ifc''
     \<lparr>file_status = Returns 0, open_project = Returns 0, translators = Returns (0, 1), save_project = Returns 0\<rparr>
     \<lparr>handler = \<lparr>s_currentJobId = ''J1'', s_conversionInProgress = True, s_shouldCancel = False\<rparr>,
       host_calls = [], observer = []\<rparr>
   = (Returns False,
      \<lparr>handler = \<lparr>s_currentJobId = ''J1'', s_conversionInProgress = True, s_shouldCancel = False\<rparr>,
       host_calls = [],
       observer = [SendProgress ''J1'' 0 ''error'' ''Error: Another conversion is already in progress'',
                   SendError ''J1'' ''Conversion failed'']\<rparr>)
   \<and> IsConversionInProgress ''J1''
        \<lparr>s_currentJobId = ''J1'', s_conversionInProgress = True, s_shouldCancel = False\<rparr>"
  by (simp add: ConversionCommand_Execute_def ConvertPlnToIfc_def admit_def rejected_def notify_def
      execute_callback_def broadcast_def progress_status_def report_result_def
      IsConversionInProgress_def)

text \<open>
  Claim C3, amended. With the server present, every failing run of the two conversion
  commands broadcasts exactly one message of type \<^verbatim>\<open>error\<close>, and it carries the job id of the
  request. If the conversion had been admitted, the job state is Idle afterwards
  (\<^verbatim>\<open>s_conversionInProgress\<close> false, \<^verbatim>\<open>s_currentJobId\<close> empty); if the start was rejected, the
  job state is that of the running job, unchanged. A run of a command either succeeds or
  fails: with the callback of the commands no exception leaves it.
\<close>

theorem one_error_event_per_failure:
  "(fst (ConversionCommand_Execute True jobId inputPath outputPath h w) = Returns False \<longrightarrow>
      filter is_error_event (observer (snd (ConversionCommand_Execute True jobId inputPath outputPath h w)))
        = filter is_error_event (observer w) @ [SendError jobId ''Conversion failed'']
      \<and> (\<not> s_conversionInProgress (handler w) \<longrightarrow>
            \<not> s_conversionInProgress (handler (snd (ConversionCommand_Execute True jobId inputPath outputPath h w)))
            \<and> s_currentJobId (handler (snd (ConversionCommand_Execute True jobId inputPath outputPath h w))) = [])
      \<and> (s_conversionInProgress (handler w) \<longrightarrow>
            handler (snd (ConversionCommand_Execute True jobId inputPath outputPath h w)) = handler w))
   \<and> (fst (ConvertIfcToPlnCommand_Execute True jobId inputPath outputPath h w) = Returns False \<longrightarrow>
      filter is_error_event (observer (snd (ConvertIfcToPlnCommand_Execute True jobId inputPath outputPath h w)))
        = filter is_error_event (observer w) @ [SendError jobId ''Conversion failed'']
      \<and> (\<not> s_conversionInProgress (handler w) \<longrightarrow>
            \<not> s_conversionInProgress (handler (snd (ConvertIfcToPlnCommand_Execute True jobId inputPath outputPath h w)))
            \<and> s_currentJobId (handler (snd (ConvertIfcToPlnCommand_Execute True jobId inputPath outputPath h w))) = [])
      \<and> (s_conversionInProgress (handler w) \<longrightarrow>
            handler (snd (ConvertIfcToPlnCommand_Execute True jobId inputPath outputPath h w)) = handler w))
   \<and> fst (ConversionCommand_Execute server jobId inputPath outputPath h w) \<in> {Returns True, Returns False}
   \<and> fst (ConvertIfcToPlnCommand_Execute server jobId inputPath outputPath h w) \<in> {Returns True, Returns False}"
proof (intro conjI impI)
  assume f: "fst (ConversionCommand_Execute True jobId inputPath outputPath h w) = Returns False"
  then have f': "fst (ConvertPlnToIfc jobId inputPath outputPath (execute_callback True jobId) h w) = Returns False"
    by (simp add: ConversionCommand_Execute_unfold)
  note u = ConversionCommand_Execute_unfold [of True jobId inputPath outputPath h w False, THEN conjunct2,
        rule_format, OF f']
  show "filter is_error_event (observer (snd (ConversionCommand_Execute True jobId inputPath outputPath h w)))
        = filter is_error_event (observer w) @ [SendError jobId ''Conversion failed'']"
    by (simp add: u observer_report_result errors_ConvertPlnToIfc)
  show "\<not> s_conversionInProgress (handler (snd (ConversionCommand_Execute True jobId inputPath outputPath h w)))"
    if "\<not> s_conversionInProgress (handler w)"
    using that f' by (simp add: u ConvertPlnToIfc_idle handler_from_error_label_idle)
  show "s_currentJobId (handler (snd (ConversionCommand_Execute True jobId inputPath outputPath h w))) = []"
    if "\<not> s_conversionInProgress (handler w)"
    using that f' by (simp add: u ConvertPlnToIfc_idle handler_from_error_label_idle)
  show "handler (snd (ConversionCommand_Execute True jobId inputPath outputPath h w)) = handler w"
    if "s_conversionInProgress (handler w)"
    using that by (simp add: u ConvertPlnToIfc_running rejected_effect)
next
  assume f: "fst (ConvertIfcToPlnCommand_Execute True jobId inputPath outputPath h w) = Returns False"
  then have f': "fst (ConvertIfcToPln jobId inputPath outputPath (execute_callback True jobId) h w) = Returns False"
    by (simp add: ConvertIfcToPlnCommand_Execute_unfold)
  note u = ConvertIfcToPlnCommand_Execute_unfold [of True jobId inputPath outputPath h w False, THEN conjunct2,
        rule_format, OF f']
  show "filter is_error_event (observer (snd (ConvertIfcToPlnCommand_Execute True jobId inputPath outputPath h w)))
        = filter is_error_event (observer w) @ [SendError jobId ''Conversion failed'']"
    by (simp add: u observer_report_result errors_ConvertIfcToPln)
  show "\<not> s_conversionInProgress (handler (snd (ConvertIfcToPlnCommand_Execute True jobId inputPath outputPath h w)))"
    if "\<not> s_conversionInProgress (handler w)"
    using that f' by (simp add: u ConvertIfcToPln_idle handler_from_error_label_idle)
  show "s_currentJobId (handler (snd (ConvertIfcToPlnCommand_Execute True jobId inputPath outputPath h w))) = []"
    if "\<not> s_conversionInProgress (handler w)"
    using that f' by (simp add: u ConvertIfcToPln_idle handler_from_error_label_idle)
  show "handler (snd (ConvertIfcToPlnCommand_Execute True jobId inputPath outputPath h w)) = handler w"
    if "s_conversionInProgress (handler w)"
    using that by (simp add: u ConvertIfcToPln_running rejected_effect)
next
  show "fst (ConversionCommand_Execute server jobId inputPath outputPath h w) \<in> {Returns True, Returns False}"
    using ConvertPlnToIfc_execute_returns [of jobId inputPath outputPath server h w]
    by (auto simp add: ConversionCommand_Execute_unfold)
  show "fst (ConvertIfcToPlnCommand_Execute server jobId inputPath outputPath h w) \<in> {Returns True, Returns False}"
    using ConvertIfcToPln_execute_returns [of jobId inputPath outputPath server h w]
    by (auto simp add: ConvertIfcToPlnCommand_Execute_unfold)
qed

theorem one_error_event_per_failure_witness:
  "fst (ConversionCommand_Execute True ''J1'' ''a.pln'' ''b.ifc''
       \<lparr>file_status = Returns 0, open_project = Returns (-5), translators = Returns (0, 1),
         save_project = Returns 0\<rparr>
       \<lparr>handler = initial_handler, host_calls = [], observer = []\<rparr>) = Returns False
   \<and> \<not> s_conversionInProgress (handler \<lparr>handler = initial_handler, host_calls = [], observer = []\<rparr>)
   \<and> snd (ConversionCommand_Execute True ''J1'' ''a.pln'' ''b.ifc''
       \<lparr>file_status = Returns 0, open_project = Returns (-5), translators = Returns (0, 1),
         save_project = Returns 0\<rparr>
       \<lparr>handler = initial_handler, host_calls = [], observer = []\<rparr>)
     = \<lparr>handler = initial_handler,
        host_calls = [FileGetStatus ''a.pln'', ProjectClose, ProjectOpen PlanFile ''a.pln'',
                      ProjectClose, NewProject],
        observer = [SendProgress ''J1'' 20 ''processing'' ''Closing current project'',
                    SendProgress ''J1'' 30 ''processing'' ''Opening .pln project'',
                    SendProgress ''J1'' 0 ''error'' ''Error opening .pln file. Code: -5'',
                    SendError ''J1'' ''Conversion failed'']\<rparr>
   \<and> fst (ConvertIfcToPlnCommand_Execute True ''J2'' ''a.ifc'' ''b.pln''
       \<lparr>file_status = Returns 0, open_project = Returns 0, translators = Returns (0, 1),
         save_project = Returns 0\<rparr>
       \<lparr>handler = \<lparr>s_currentJobId = ''J1'', s_conversionInProgress = True, s_shouldCancel = False\<rparr>,
         host_calls = [], observer = []\<rparr>) = Returns False
   \<and> snd (ConvertIfcToPlnCommand_Execute True ''J2'' ''a.ifc'' ''b.pln''
       \<lparr>file_status = Returns 0, open_project = Returns 0, translators = Returns (0, 1),
         save_project = Returns 0\<rparr>
       \<lparr>handler = \<lparr>s_currentJobId = ''J1'', s_conversionInProgress = True, s_shouldCancel = False\<rparr>,
         host_calls = [], observer = []\<rparr>)
     = \<lparr>handler = \<lparr>s_currentJobId = ''J1'', s_conversionInProgress = True, s_shouldCancel = False\<rparr>,
        host_calls = [],
        observer = [SendProgress ''J2'' 0 ''error'' ''Error: Another conversion is already in progress'',
                    SendError ''J2'' ''Conversion failed'']\<rparr>"
  using one_error_event_per_failure [where jobId = "''J1''" and inputPath = "''a.pln''"
      and outputPath = "''b.ifc''"
      and h = "\<lparr>file_status = Returns 0, open_project = Returns (-5), translators = Returns (0, 1),
         save_project = Returns 0\<rparr>"
      and w = "\<lparr>handler = initial_handler, host_calls = [], observer = []\<rparr>"]
    one_error_event_per_failure [where jobId = "''J2''" and inputPath = "''a.ifc''"
      and outputPath = "''b.pln''"
      and h = "\<lparr>file_status = Returns 0, open_project = Returns 0, translators = Returns (0, 1),
         save_project = Returns 0\<rparr>"
      and w = "\<lparr>handler = \<lparr>s_currentJobId = ''J1'', s_conversionInProgress = True, s_shouldCancel = False\<rparr>,
         host_calls = [], observer = []\<rparr>"]
  by (simp add: ConversionCommand_Execute_def ConvertIfcToPlnCommand_Execute_def ConvertPlnToIfc_def
      ConvertIfcToPln_def ConvertPlnToIfc_try_def ConvertPlnToIfc_block_def on_progress_def fail_def
      admit_def rejected_def notify_def call_host_def from_error_label_def
      execute_callback_def broadcast_def progress_status_def report_result_def initial_handler_def
      NoError_def close_and_blank_def reset_state_def to_string_def nat_to_string.simps digit_char_def)

subsection \<open>The write queue of a session\<close>

lemma write_inv_accepted: "write_inv accepted_session"
  by (simp add: write_inv_def accepted_session_def)

lemma Send_open:
  assumes "write_inv s" "m_open s"
  shows "write_inv (Send m s) \<and> m_open (Send m s) \<and> handed_over (Send m s) = handed_over s @ [m]
         \<and> (\<exists>ns. written (Send m s) = written s @ ns)"
  using assms
  by (cases "m_writeQueue s") (auto simp add: write_inv_def Send_def DoWrite_def handed_over_def)

lemma Send_closed: "\<not> m_open s \<Longrightarrow> Send m s = s"
  by (simp add: Send_def)

lemma OnWrite_ok:
  assumes "write_inv s" "writes_in_flight s \<noteq> 0"
  shows "write_inv (OnWrite False s) \<and> m_open (OnWrite False s) = m_open s
         \<and> handed_over (OnWrite False s) = handed_over s
         \<and> (\<exists>ns. written (OnWrite False s) = written s @ ns)"
proof -
  from assms obtain x q where q: "m_writeQueue s = x # q" and f: "writes_in_flight s = 1"
    by (cases "m_writeQueue s") (auto simp add: write_inv_def)
  show ?thesis
    using assms q f
    by (cases q) (auto simp add: write_inv_def OnWrite_def DoWrite_def handed_over_def)
qed

lemma OnWrite_error:
  assumes "write_inv s" "writes_in_flight s \<noteq> 0"
  shows "write_inv (OnWrite True s) \<and> \<not> m_open (OnWrite True s)
         \<and> written (OnWrite True s) = written s
         \<and> m_writeQueue (OnWrite True s) = m_writeQueue s"
  using assms by (auto simp add: write_inv_def OnWrite_def)

lemma Close_step:
  assumes "write_inv s"
  shows "write_inv (Close s) \<and> \<not> m_open (Close s) \<and> written (Close s) = written s
         \<and> m_writeQueue (Close s) = m_writeQueue s"
  using assms by (auto simp add: write_inv_def Close_def)

lemma run_undisturbed:
  assumes "run_session es s = Some s'" "write_inv s" "m_open s" "undisturbed es"
  shows "write_inv s' \<and> m_open s' \<and> handed_over s' = handed_over s @ sent es"
  using assms
proof (induction es s rule: run_session.induct)
  case (1 s)
  then show ?case by simp
next
  case (2 message es s)
  then show ?case using Send_open [of s message] by simp
next
  case (3 ec es s)
  then show ?case using OnWrite_ok [of s] by (simp split: if_splits)
next
  case (4 es s)
  then show ?case by simp
qed

text \<open>
  In every run the messages handed to the socket grow by a prefix of what was waiting in the
  queue followed by what is passed to \<^verbatim>\<open>Send\<close>; by a prefix of what was waiting, if the session
  is closed.
\<close>

lemma run_any:
  assumes "run_session es s = Some s'" "write_inv s"
  shows "write_inv s' \<and> (\<exists>ms. written s' = written s @ ms
           \<and> prefix ms (tl (m_writeQueue s) @ (if m_open s then sent es else [])))"
  using assms
proof (induction es s rule: run_session.induct)
  case (1 s)
  then show ?case by simp
next
  case (2 message es s)
  show ?case
  proof (cases "m_open s")
    case False
    then have "Send message s = s" by (rule Send_closed)
    with 2 False show ?thesis by simp
  next
    case True
    from Send_open [OF "2.prems"(2) True, of message]
    have inv: "write_inv (Send message s)" and op: "m_open (Send message s)"
      and ho: "handed_over (Send message s) = handed_over s @ [message]"
      and "\<exists>ns. written (Send message s) = written s @ ns" by simp_all
    then obtain ns where ns: "written (Send message s) = written s @ ns" by blast
    from "2.IH" [OF _ inv] "2.prems"(1) op
    obtain ms where s': "write_inv s'" and ms: "written s' = written (Send message s) @ ms"
      and pre: "prefix ms (tl (m_writeQueue (Send message s)) @ sent es)" by auto
    have "ns @ tl (m_writeQueue (Send message s)) = tl (m_writeQueue s) @ [message]"
      using ho ns by (simp add: handed_over_def)
    then have "tl (m_writeQueue s) @ sent (SendCall message # es) =
        ns @ (tl (m_writeQueue (Send message s)) @ sent es)"
      by simp
    then have "prefix (ns @ ms) (tl (m_writeQueue s) @ sent (SendCall message # es))"
      using pre by (simp del: append_assoc sent.simps)
    then have "prefix (ns @ ms)
        (tl (m_writeQueue s) @ (if m_open s then sent (SendCall message # es) else []))"
      using True by simp
    moreover have "written s' = written s @ (ns @ ms)" using ms ns by simp
    ultimately show ?thesis using s' by blast
  qed
next
  case (3 ec es s)
  then have fl: "writes_in_flight s \<noteq> 0" and run: "run_session es (OnWrite ec s) = Some s'"
    by (simp_all split: if_splits)
  show ?case
  proof (cases ec)
    case True
    from OnWrite_error [OF "3.prems"(2) fl]
    have inv: "write_inv (OnWrite True s)" and cl: "\<not> m_open (OnWrite True s)"
      and w: "written (OnWrite True s) = written s"
      and q: "m_writeQueue (OnWrite True s) = m_writeQueue s"
      by simp_all
    from "3.IH" [OF fl run] inv True cl
    obtain ms where s': "write_inv s'" and ms: "written s' = written (OnWrite True s) @ ms"
      and pre: "prefix ms (tl (m_writeQueue (OnWrite True s)))" by auto
    from pre q have "prefix ms (tl (m_writeQueue s) @ (if m_open s then sent (WriteCompleted ec # es) else []))"
      by (auto intro: prefix_prefix)
    moreover have "written s' = written s @ ms" using ms w by simp
    ultimately show ?thesis using s' by blast
  next
    case False
    from OnWrite_ok [OF "3.prems"(2) fl]
    have inv: "write_inv (OnWrite False s)" and op': "m_open (OnWrite False s) = m_open s"
      and ho: "handed_over (OnWrite False s) = handed_over s"
      and "\<exists>ns. written (OnWrite False s) = written s @ ns" by simp_all
    then obtain ns where ns: "written (OnWrite False s) = written s @ ns" by blast
    from "3.IH" [OF fl run] inv False op'
    obtain ms where s': "write_inv s'" and ms: "written s' = written (OnWrite False s) @ ms"
      and pre: "prefix ms (tl (m_writeQueue (OnWrite False s)) @ (if m_open s then sent es else []))"
      by auto
    have "ns @ tl (m_writeQueue (OnWrite False s)) = tl (m_writeQueue s)"
      using ho ns by (simp add: handed_over_def)
    then have "tl (m_writeQueue s) @ (if m_open s then sent (WriteCompleted ec # es) else []) =
        ns @ (tl (m_writeQueue (OnWrite False s)) @ (if m_open s then sent es else []))"
      by simp
    then have "prefix (ns @ ms) (tl (m_writeQueue s) @ (if m_open s then sent (WriteCompleted ec # es) else []))"
      using pre by (simp del: append_assoc sent.simps)
    moreover have "written s' = written s @ (ns @ ms)" using ms ns by simp
    ultimately show ?thesis using s' by blast
  qed
next
  case (4 es s)
  from Close_step [OF "4.prems"(2)]
  have inv: "write_inv (Close s)" and cl: "\<not> m_open (Close s)"
    and w: "written (Close s) = written s" and q: "m_writeQueue (Close s) = m_writeQueue s"
    by simp_all
  from "4.IH" [OF _ inv] "4.prems"(1) cl
  obtain ms where s': "write_inv s'" and ms: "written s' = written (Close s) @ ms"
    and pre: "prefix ms (tl (m_writeQueue (Close s)))" by auto
  from pre q have "prefix ms (tl (m_writeQueue s) @ (if m_open s then sent (SessionClosed # es) else []))"
    by (auto intro: prefix_prefix)
  moreover have "written s' = written s @ ms" using ms w by simp
  ultimately show ?case using s' by blast
qed

text \<open>
  Claim C8. In every run of a session from its acceptance, whatever the order of the calls of
  \<^verbatim>\<open>Send\<close>, the completions of writes and the closing of the session, at most one write is in
  flight at any time, and the messages handed to the socket are, in order, a prefix of the
  messages passed to \<^verbatim>\<open>Send\<close>; while no write fails and the session is not closed they are,
  followed by the queue behind its head, exactly the messages passed to \<^verbatim>\<open>Send\<close>, so once the
  queue is empty every message has been transmitted in the order of the calls. \<^verbatim>\<open>Send\<close> on an
  open session appends to the queue and starts a write only if the queue was empty; a
  successful \<^verbatim>\<open>OnWrite\<close> removes the head and starts the next write only if the queue is not
  empty then.
\<close>

theorem outbound_fifo_order:
  "(run_session es accepted_session = Some s \<longrightarrow>
      writes_in_flight s \<le> 1
      \<and> prefix (written s) (sent es)
      \<and> (undisturbed es \<longrightarrow>
            written s @ tl (m_writeQueue s) = sent es
            \<and> (writes_in_flight s = 0 \<longleftrightarrow> m_writeQueue s = [])))
   \<and> (m_open q \<longrightarrow>
        m_writeQueue (Send message q) = m_writeQueue q @ [message]
        \<and> written (Send message q) =
            (if m_writeQueue q = [] then written q @ [message] else written q))
   \<and> m_writeQueue (OnWrite False q) = tl (m_writeQueue q)
   \<and> written (OnWrite False q) =
        (if tl (m_writeQueue q) = [] then written q else written q @ [hd (tl (m_writeQueue q))])"
proof (intro conjI impI)
  assume run: "run_session es accepted_session = Some s"
  from run_any [OF run write_inv_accepted]
  obtain ms where inv: "write_inv s" and ms: "written s = written accepted_session @ ms"
    and pre: "prefix ms (tl (m_writeQueue accepted_session) @ sent es)"
    by (auto simp add: accepted_session_def)
  show "writes_in_flight s \<le> 1"
    using inv by (simp add: write_inv_def)
  show "prefix (written s) (sent es)"
    using ms pre by (simp add: accepted_session_def)
  assume ok: "undisturbed es"
  from run_undisturbed [OF run write_inv_accepted _ ok]
  have inv': "write_inv s" and op: "m_open s"
    and ho: "handed_over s = handed_over accepted_session @ sent es"
    by (simp_all add: accepted_session_def)
  show "written s @ tl (m_writeQueue s) = sent es"
    using ho by (simp add: handed_over_def accepted_session_def)
  show "writes_in_flight s = 0 \<longleftrightarrow> m_writeQueue s = []"
    using inv' op by (auto simp add: write_inv_def)
next
  assume "m_open q"
  then show "m_writeQueue (Send message q) = m_writeQueue q @ [message]"
    by (simp add: Send_def DoWrite_def Let_def)
  from \<open>m_open q\<close> show "written (Send message q) =
            (if m_writeQueue q = [] then written q @ [message] else written q)"
    by (simp add: Send_def DoWrite_def Let_def)
next
  show "m_writeQueue (OnWrite False q) = tl (m_writeQueue q)"
    by (simp add: OnWrite_def DoWrite_def Let_def)
  show "written (OnWrite False q) =
        (if tl (m_writeQueue q) = [] then written q else written q @ [hd (tl (m_writeQueue q))])"
    by (simp add: OnWrite_def DoWrite_def Let_def)
qed

theorem outbound_fifo_order_witness:
  "run_session [SendCall ''E1'', SendCall ''E2'', WriteCompleted False, SendCall ''E3'',
                WriteCompleted False, WriteCompleted False] accepted_session
     = Some \<lparr>m_open = True, m_writeQueue = [], reading = True, written = [''E1'', ''E2'', ''E3''],
             writes_in_flight = 0\<rparr>
   \<and> undisturbed [SendCall ''E1'', SendCall ''E2'', WriteCompleted False, SendCall ''E3'',
                WriteCompleted False, WriteCompleted False]
   \<and> sent [SendCall ''E1'', SendCall ''E2'', WriteCompleted False, SendCall ''E3'',
                WriteCompleted False, WriteCompleted False] = [''E1'', ''E2'', ''E3'']
   \<and> m_open accepted_session
   \<and> Send ''E1'' accepted_session
     = \<lparr>m_open = True, m_writeQueue = [''E1''], reading = True, written = [''E1''],
        writes_in_flight = 1\<rparr>"
  using outbound_fifo_order [where es = "[SendCall ''E1'', SendCall ''E2'', WriteCompleted False,
        SendCall ''E3'', WriteCompleted False, WriteCompleted False]"
      and s = "\<lparr>m_open = True, m_writeQueue = [], reading = True, written = [''E1'', ''E2'', ''E3''],
             writes_in_flight = 0\<rparr>"
      and q = accepted_session and message = "''E1''"]
  by (simp add: accepted_session_def Send_def DoWrite_def OnWrite_def)

subsection \<open>The search and the values it finds\<close>

text \<open>\<^verbatim>\<open>find_first\<close> gives the first position at which the needle occurs, and only that.\<close>

lemma find_first_Some:
  "find_first needle s = Some i \<Longrightarrow>
     i \<le> length s \<and> take (length needle) (drop i s) = needle
     \<and> (\<forall>j<i. take (length needle) (drop j s) \<noteq> needle)"
proof (induction s arbitrary: i)
  case Nil
  then show ?case by (simp split: if_splits)
next
  case (Cons c cs)
  show ?case
  proof (cases "take (length needle) (c # cs) = needle")
    case True
    with Cons.prems show ?thesis by simp
  next
    case False
    with Cons.prems obtain k where k: "find_first needle cs = Some k" and i: "i = Suc k"
      by auto
    from Cons.IH [OF k] have ih: "k \<le> length cs" "take (length needle) (drop k cs) = needle"
      "\<forall>j<k. take (length needle) (drop j cs) \<noteq> needle" by simp_all
    have "take (length needle) (drop j (c # cs)) \<noteq> needle" if "j < i" for j
    proof (cases j)
      case 0
      with False show ?thesis by simp
    next
      case (Suc j')
      with that i ih(3) show ?thesis by simp
    qed
    with ih i show ?thesis by simp
  qed
qed

lemma find_first_None:
  "find_first needle s = None \<Longrightarrow> \<forall>j\<le>length s. take (length needle) (drop j s) \<noteq> needle"
proof (induction s)
  case Nil
  then show ?case by (auto split: if_splits)
next
  case (Cons c cs)
  then have here: "take (length needle) (c # cs) \<noteq> needle" and rest: "find_first needle cs = None"
    by (auto split: if_splits)
  show ?case
  proof (intro allI impI)
    fix j assume "j \<le> length (c # cs)"
    then show "take (length needle) (drop j (c # cs)) \<noteq> needle"
      using here Cons.IH [OF rest] by (cases j) simp_all
  qed
qed

lemma find_first_eq:
  assumes "i \<le> length s" "take (length needle) (drop i s) = needle"
    and "\<forall>j<i. take (length needle) (drop j s) \<noteq> needle"
  shows "find_first needle s = Some i"
proof (cases "find_first needle s")
  case None
  from find_first_None [OF None] assms(1,2) show ?thesis by blast
next
  case (Some k)
  from find_first_Some [OF Some] have k: "take (length needle) (drop k s) = needle"
    "\<forall>j<k. take (length needle) (drop j s) \<noteq> needle" by simp_all
  have "k = i"
  proof (rule ccontr)
    assume "k \<noteq> i"
    then consider "k < i" | "i < k" by arith
    then show False using k assms by cases blast+
  qed
  with Some show ?thesis by simp
qed

lemma find_first_char:
  "c \<notin> set xs \<Longrightarrow> find_first [c] (xs @ c # ys) = Some (length xs)"
  by (induction xs) auto

lemma str_find_char:
  assumes "c \<notin> set xs"
  shows "str_find (pre @ xs @ c # ys) [c] (Some (length pre)) = Some (length pre + length xs)"
  using assms by (simp add: str_find_def find_first_char)

text \<open>
  Where the quoted key is followed by a colon and a quoted value without quotes in it (with any
  text free of colons before the colon, and any text free of quotes after it), the value read
  after the key is that value.
\<close>

lemma value_after_key:
  assumes "CHR '':'' \<notin> set (quoted name @ sp1)" and "CHR 0x22 \<notin> set sp2" and "CHR 0x22 \<notin> set v"
  shows "value_after (pre @ quoted name @ sp1 @ '':'' @ sp2 @ quoted v @ post) (length pre) = Some v"
proof -
  define P where "P = pre @ quoted name @ sp1 @ '':'' @ sp2 @ quoted v @ post"
  define a where "a = length (pre @ quoted name @ sp1)"
  define b where "b = length ((pre @ quoted name @ sp1) @ '':'' @ sp2)"
  have P1: "P = pre @ (quoted name @ sp1) @ CHR '':'' # (sp2 @ quoted v @ post)"
    by (simp add: P_def)
  have P2: "P = (pre @ quoted name @ sp1) @ ('':'' @ sp2) @ CHR 0x22 # (v @ CHR 0x22 # post)"
    by (simp add: P_def quoted_def)
  have P3: "P = ((pre @ quoted name @ sp1) @ '':'' @ sp2 @ [CHR 0x22]) @ v @ CHR 0x22 # post"
    by (simp add: P_def quoted_def)
  have f1: "str_find P '':'' (Some (length pre)) = Some a"
    using str_find_char [OF assms(1), of pre "sp2 @ quoted v @ post"]
    by (simp add: a_def P1 add.assoc)
  have nq: "CHR 0x22 \<notin> set ('':'' @ sp2)"
    using assms(2) by simp
  have f2: "str_find P [CHR 0x22] (Some a) = Some b"
    using str_find_char [OF nq, of "pre @ quoted name @ sp1" "v @ CHR 0x22 # post"]
    by (simp add: a_def b_def P2 add.assoc)
  have f3: "str_find P [CHR 0x22] (Some (Suc b)) = Some (Suc b + length v)"
    using str_find_char [OF assms(3), of "(pre @ quoted name @ sp1) @ '':'' @ sp2 @ [CHR 0x22]" post]
    by (simp add: b_def P3 add.assoc)
  have "substr P (length ((pre @ quoted name @ sp1) @ '':'' @ sp2 @ [CHR 0x22])) (length v) = v"
    unfolding substr_def by (subst P3) simp
  then have f4: "substr P (Suc b) (length v) = v"
    by (simp add: b_def add.assoc)
  have "value_after P (length pre) = Some v"
    by (simp add: value_after_def f1 f2 plus_one_def f3 f4 Let_def)
  then show ?thesis
    by (simp only: P_def)
qed

lemma str_find_first_occurrence:
  assumes "\<forall>j<length pre. take (length needle) (drop j (pre @ needle @ rest)) \<noteq> needle"
  shows "str_find (pre @ needle @ rest) needle (Some 0) = Some (length pre)"
proof -
  have "find_first needle (pre @ needle @ rest) = Some (length pre)"
    by (rule find_first_eq) (use assms in simp_all)
  then show ?thesis by (simp add: str_find_def)
qed

text \<open>
  So a field is read as the claim says whenever the first occurrence of its quoted name in
  the payload is the key of the field (and, for the alternate name, the first name does not
  occur at all).
\<close>

lemma field_value_name:
  assumes "\<forall>j<length pre. take (length (quoted name))
              (drop j (pre @ quoted name @ sp1 @ '':'' @ sp2 @ quoted v @ post)) \<noteq> quoted name"
    and "CHR '':'' \<notin> set (quoted name @ sp1)" and "CHR 0x22 \<notin> set sp2" and "CHR 0x22 \<notin> set v"
  shows "field_value (pre @ quoted name @ sp1 @ '':'' @ sp2 @ quoted v @ post) name alternate = Some v"
  using str_find_first_occurrence [OF assms(1)] value_after_key [OF assms(2-4), of pre post]
  by (simp add: field_value_def key_position_def)

lemma field_value_alternate:
  assumes "find_first (quoted name) (pre @ quoted alternate @ sp1 @ '':'' @ sp2 @ quoted v @ post) = None"
    and "\<forall>j<length pre. take (length (quoted alternate))
              (drop j (pre @ quoted alternate @ sp1 @ '':'' @ sp2 @ quoted v @ post)) \<noteq> quoted alternate"
    and "CHR '':'' \<notin> set (quoted alternate @ sp1)" and "CHR 0x22 \<notin> set sp2" and "CHR 0x22 \<notin> set v"
  shows "field_value (pre @ quoted alternate @ sp1 @ '':'' @ sp2 @ quoted v @ post) name alternate = Some v"
  using assms(1) str_find_first_occurrence [OF assms(2)] value_after_key [OF assms(3-5), of pre post]
  by (simp add: field_value_def key_position_def str_find_def)

subsection \<open>The fields of a start request\<close>



lemma http_posts_send_event [simp]: "http_posts (send_event server e p) = http_posts p"
  by (simp add: send_event_def)








subsection \<open>Frames without a command\<close>














subsection \<open>Escaping and decoding\<close>

lemma hex_value_hex_digit: "m < 16 \<Longrightarrow> hex_value (hex_digit m) = Some m"
proof -
  assume "m < 16"
  then have "m = 0 \<or> m = 1 \<or> m = 2 \<or> m = 3 \<or> m = 4 \<or> m = 5 \<or> m = 6 \<or> m = 7 \<or> m = 8
      \<or> m = 9 \<or> m = 10 \<or> m = 11 \<or> m = 12 \<or> m = 13 \<or> m = 14 \<or> m = 15" by arith
  then show ?thesis
    by (elim disjE) (simp_all add: hex_value_def hex_digit_def)
qed

lemma hex_digits_small: "n < 16 \<Longrightarrow> hex_digits n = [hex_digit n]"
  by (simp add: hex_digits.simps)

lemma hex_digits_two: "16 \<le> n \<Longrightarrow> n < 256 \<Longrightarrow> hex_digits n = [hex_digit (n div 16), hex_digit (n mod 16)]"
  by (subst hex_digits.simps) (simp add: hex_digits_small less_mult_imp_div_less)

lemma hex_setw4_byte:
  "n < 256 \<Longrightarrow> hex_setw4 (int n) = [CHR ''0'', CHR ''0'', hex_digit (n div 16), hex_digit (n mod 16)]"
proof -
  assume n: "n < 256"
  have m: "nat (int n mod 2 ^ 32) = n" using n by simp
  show ?thesis
  proof (cases "n < 16")
    case True
    then show ?thesis
      by (simp add: hex_setw4_def m hex_digits_small hex_digit_def numeral_3_eq_3)
  next
    case False
    then show ?thesis using n
      by (simp add: hex_setw4_def m hex_digits_two numeral_2_eq_2)
  qed
qed

lemma hex4_byte:
  "n < 256 \<Longrightarrow> hex4 (CHR ''0'') (CHR ''0'') (hex_digit (n div 16)) (hex_digit (n mod 16)) = Some n"
proof -
  assume n: "n < 256"
  then have "n div 16 < 16" by (simp add: less_mult_imp_div_less)
  then have a: "hex_value (hex_digit (n div 16)) = Some (n div 16)" by (rule hex_value_hex_digit)
  have b: "hex_value (hex_digit (n mod 16)) = Some (n mod 16)" by (rule hex_value_hex_digit) simp
  have z: "hex_value (CHR ''0'') = Some 0" by (simp add: hex_value_def)
  show ?thesis by (simp add: hex4_def a b z)
qed

lemma char_as_int_nat:
  assumes "\<not> char_signed \<or> (of_char c :: nat) < 128"
  shows "char_as_int char_signed c = int (of_char c)"
proof -
  have "(of_char c :: int) = int (of_char c)" by (simp add: of_nat_of_char)
  with assms show ?thesis by (auto simp add: char_as_int_def)
qed

lemma decode_unicode_escape:
  assumes "n < 32"
  shows "json_decode_string (CHR 0x5C # CHR ''u'' # hex_setw4 (int n) @ rest) =
           map_option (\<lambda>r. char_of n # r) (json_decode_string rest)"
proof -
  from assms have n: "n < 256" by simp
  have single: "(@) [char_of n] = (#) (char_of n)" by (rule ext) simp
  show ?thesis
    using assms by (simp add: hex_setw4_byte [OF n] hex4_byte [OF n] utf8_def single)
qed

lemma decode_escape_char:
  assumes "\<not> char_signed \<or> (of_char c :: nat) < 128"
  shows "json_decode_string (escape_char char_signed c @ rest) =
           map_option (\<lambda>r. c # r) (json_decode_string rest)"
proof -
  have ci: "char_as_int char_signed c = int (of_char c)"
    using assms by (rule char_as_int_nat)
  consider (special) "c \<in> {CHR 0x22, CHR 0x5C, CHR 0x08, CHR 0x0C, CHR 0x0A, CHR 0x0D, CHR 0x09}"
    | (control) "c \<notin> {CHR 0x22, CHR 0x5C, CHR 0x08, CHR 0x0C, CHR 0x0A, CHR 0x0D, CHR 0x09}"
        "(of_char c :: nat) < 32"
    | (plain) "c \<notin> {CHR 0x22, CHR 0x5C, CHR 0x08, CHR 0x0C, CHR 0x0A, CHR 0x0D, CHR 0x09}"
        "\<not> (of_char c :: nat) < 32"
    by blast
  then show ?thesis
  proof cases
    case special
    then show ?thesis
      by (elim insertE emptyE) (simp_all add: escape_char_def simple_escape_def)
  next
    case control
    then have "escape_char char_signed c = CHR 0x5C # CHR ''u'' # hex_setw4 (int (of_char c))"
      by (simp add: escape_char_def ci)
    then show ?thesis
      using decode_unicode_escape [OF control(2), of rest] by simp
  next
    case plain
    then have "escape_char char_signed c = [c]"
      by (simp add: escape_char_def ci)
    then show ?thesis
      using plain by simp
  qed
qed

lemma EscapeJson_Cons: "EscapeJson char_signed (c # cs) = escape_char char_signed c @ EscapeJson char_signed cs"
  by (simp add: EscapeJson_def)

text \<open>
  Where no character is negative (plain \<^verbatim>\<open>char\<close> unsigned, or every byte below 0x80), the
  decoder gives back the input of \<^verbatim>\<open>EscapeJson\<close>.
\<close>

lemma EscapeJson_round_trip:
  assumes "\<not> char_signed \<or> (\<forall>c\<in>set str. (of_char c :: nat) < 128)"
  shows "json_decode_string (EscapeJson char_signed str) = Some str"
  using assms
proof (induction str)
  case Nil
  then show ?case by (simp add: EscapeJson_def)
next
  case (Cons c cs)
  then have "json_decode_string (EscapeJson char_signed cs) = Some cs" by auto
  moreover have "\<not> char_signed \<or> (of_char c :: nat) < 128" using Cons.prems by auto
  ultimately show ?case
    by (simp add: EscapeJson_Cons decode_escape_char)
qed

lemma char_of_239: "char_of (239::nat) = CHR 0xEF"
  by (simp add: char_of_eq_iff)

lemma char_of_191: "char_of (191::nat) = CHR 0xBF"
  by (simp add: char_of_eq_iff)

text \<open>
  With plain \<^verbatim>\<open>char\<close> signed, every byte from 0x80 on is written as a \<^verbatim>\<open>\u\<close> escape of eight
  digits, which decodes to seven bytes: the round trip holds exactly for the strings without
  such a byte.
\<close>

lemma escape_char_signed_high:
  assumes "128 \<le> (of_char c :: nat)"
  shows "escape_char True c = CHR 0x5C # CHR ''u'' # hex_setw4 (int (of_char c) - 256)"
proof -
  have i: "(of_char c :: int) = int (of_char c)" by (simp add: of_nat_of_char)
  have lt: "(of_char c :: nat) < 288"
    using nat_of_char_less_256 [of c] by linarith
  have "c \<notin> {CHR 0x22, CHR 0x5C, CHR 0x08, CHR 0x0C, CHR 0x0A, CHR 0x0D, CHR 0x09}"
    using assms by auto
  then show ?thesis
    using assms by (simp add: escape_char_def char_as_int_def i lt)
qed

lemma hex_digit_plain:
  assumes "m < 16"
  shows "hex_digit m \<noteq> CHR 0x5C \<and> hex_digit m \<noteq> CHR 0x22 \<and> \<not> (of_char (hex_digit m) :: nat) < 0x20"
proof -
  from assms have "m = 0 \<or> m = 1 \<or> m = 2 \<or> m = 3 \<or> m = 4 \<or> m = 5 \<or> m = 6 \<or> m = 7 \<or> m = 8
      \<or> m = 9 \<or> m = 10 \<or> m = 11 \<or> m = 12 \<or> m = 13 \<or> m = 14 \<or> m = 15" by arith
  then show ?thesis
    by (elim disjE) (simp_all add: hex_digit_def)
qed

lemma hex_digits_step: "16 \<le> n \<Longrightarrow> hex_digits n = hex_digits (n div 16) @ [hex_digit (n mod 16)]"
  by (subst hex_digits.simps) simp

lemma hex_digits_ffffff: "hex_digits 16777215 = ''ffffff''"
  by (simp add: hex_digits.simps hex_digit_def)

lemma hex_digits_high:
  assumes "v < 256"
  shows "hex_digits (4294967040 + v) = ''ffffff'' @ [hex_digit (v div 16), hex_digit (v mod 16)]"
proof -
  have small: "v div 16 < 16" using assms by (simp add: less_mult_imp_div_less)
  have d1: "(4294967040 + v) div 16 = 268435440 + v div 16" by simp
  have "(16 * 268435440 + v) mod 16 = v mod 16" by (rule mod_mult_self4)
  then have m1: "(4294967040 + v) mod 16 = v mod 16" by simp
  have d2: "(268435440 + v div 16) div 16 = 16777215" using small by simp
  have "(16 * 16777215 + v div 16) mod 16 = v div 16 mod 16" by (rule mod_mult_self4)
  then have m2: "(268435440 + v div 16) mod 16 = v div 16" using small by simp
  have "hex_digits (4294967040 + v) = hex_digits (268435440 + v div 16) @ [hex_digit (v mod 16)]"
    using hex_digits_step [of "4294967040 + v"] by (simp add: d1 m1)
  also have "hex_digits (268435440 + v div 16) = hex_digits 16777215 @ [hex_digit (v div 16)]"
    using hex_digits_step [of "268435440 + v div 16"] by (simp add: d2 m2)
  finally show ?thesis by (simp add: hex_digits_ffffff)
qed

lemma hex_setw4_high:
  assumes "128 \<le> v" "v < 256"
  shows "hex_setw4 (int v - 256) = ''ffffff'' @ [hex_digit (v div 16), hex_digit (v mod 16)]"
proof -
  have "(int v - 256) mod 4294967296 = (int v - 256 + 4294967296) mod 4294967296"
    by (simp only: mod_add_self2)
  also have "\<dots> = int v - 256 + 4294967296"
    using assms by (intro mod_pos_pos_trivial) simp_all
  finally have "(int v - 256) mod 2 ^ 32 = int (4294967040 + v)" by simp
  then have "nat ((int v - 256) mod 2 ^ 32) = 4294967040 + v" by (simp only: nat_int)
  then show ?thesis
    by (simp add: hex_setw4_def hex_digits_high [OF assms(2)] del: power_numeral)
qed

lemma decode_escape_char_high:
  assumes "128 \<le> (of_char c :: nat)"
  shows "json_decode_string (escape_char True c @ rest) =
           map_option (\<lambda>r. [CHR 0xEF, CHR 0xBF, CHR 0xBF, CHR ''f'', CHR ''f'',
                               hex_digit (of_char c div 16), hex_digit (of_char c mod 16)] @ r)
             (json_decode_string rest)"
proof -
  let ?v = "of_char c :: nat"
  have v: "?v < 256" by simp
  have a: "?v div 16 < 16" by (simp add: less_mult_imp_div_less)
  have b: "?v mod 16 < 16" by simp
  note pa = hex_digit_plain [OF a] and pb = hex_digit_plain [OF b]
  have f4: "hex4 (CHR ''f'') (CHR ''f'') (CHR ''f'') (CHR ''f'') = Some 65535"
    by (simp add: hex4_def hex_value_def)
  have u: "utf8 65535 = [CHR 0xEF, CHR 0xBF, CHR 0xBF]"
    by (simp add: utf8_def char_of_239 char_of_191)
  have plain: "json_decode_string (x # xs) = map_option (\<lambda>r. x # r) (json_decode_string xs)"
    if "x \<noteq> CHR 0x5C \<and> x \<noteq> CHR 0x22 \<and> \<not> (of_char x :: nat) < 0x20" for x xs
    using that by simp
  have pf: "CHR ''f'' \<noteq> CHR 0x5C \<and> CHR ''f'' \<noteq> CHR 0x22 \<and> \<not> (of_char (CHR ''f'') :: nat) < 0x20"
    by simp
  have t1: "json_decode_string (hex_digit (?v mod 16) # rest) =
      map_option (\<lambda>r. hex_digit (?v mod 16) # r) (json_decode_string rest)"
    by (rule plain [OF pb])
  have t2: "json_decode_string (hex_digit (?v div 16) # xs) =
      map_option (\<lambda>r. hex_digit (?v div 16) # r) (json_decode_string xs)" for xs
    by (rule plain [OF pa])
  have t3: "json_decode_string (CHR ''f'' # xs) =
      map_option (\<lambda>r. CHR ''f'' # r) (json_decode_string xs)" for xs
    by (rule plain [OF pf])
  have tail: "json_decode_string (CHR ''f'' # CHR ''f'' # hex_digit (?v div 16) # hex_digit (?v mod 16) # rest)
      = map_option (\<lambda>r. CHR ''f'' # CHR ''f'' # hex_digit (?v div 16) # hex_digit (?v mod 16) # r)
          (json_decode_string rest)"
    by (simp only: t3 t2 t1 option.map_comp comp_def)
  have "escape_char True c = CHR 0x5C # CHR ''u'' # CHR ''f'' # CHR ''f'' # CHR ''f'' # CHR ''f'' #
      CHR ''f'' # CHR ''f'' # [hex_digit (?v div 16), hex_digit (?v mod 16)]"
    by (simp add: escape_char_signed_high [OF assms] hex_setw4_high [OF assms v])
  then have "json_decode_string (escape_char True c @ rest) =
      map_option (\<lambda>r. utf8 65535 @ r)
        (json_decode_string (CHR ''f'' # CHR ''f'' # hex_digit (?v div 16) # hex_digit (?v mod 16) # rest))"
    by (simp add: f4 del: json_decode_string.simps(2))
       (simp add: f4)
  then show ?thesis
    by (simp only: tail u option.map_comp comp_def append_Cons append_Nil)
qed

lemma decode_EscapeJson_signed_length:
  "\<exists>r. json_decode_string (EscapeJson True s) = Some r
       \<and> length r = length s + 6 * length (filter (\<lambda>c. 128 \<le> (of_char c :: nat)) s)"
proof (induction s)
  case Nil
  then show ?case by (simp add: EscapeJson_def)
next
  case (Cons c cs)
  then obtain r where r: "json_decode_string (EscapeJson True cs) = Some r"
    and len: "length r = length cs + 6 * length (filter (\<lambda>c. 128 \<le> (of_char c :: nat)) cs)"
    by blast
  show ?case
  proof (cases "128 \<le> (of_char c :: nat)")
    case True
    then show ?thesis
      by (simp add: EscapeJson_Cons decode_escape_char_high r len)
  next
    case False
    then have "\<not> True \<or> (of_char c :: nat) < 128" by simp
    then show ?thesis
      using False by (simp add: EscapeJson_Cons decode_escape_char r len)
  qed
qed

lemma EscapeJson_signed_round_trip_iff:
  "json_decode_string (EscapeJson True s) = Some s \<longleftrightarrow> (\<forall>c\<in>set s. (of_char c :: nat) < 128)"
proof
  assume rt: "json_decode_string (EscapeJson True s) = Some s"
  from decode_EscapeJson_signed_length [of s] rt
  have "length (filter (\<lambda>c. 128 \<le> (of_char c :: nat)) s) = 0" by auto
  then have "filter (\<lambda>c. 128 \<le> (of_char c :: nat)) s = []" by simp
  then show "\<forall>c\<in>set s. (of_char c :: nat) < 128"
    by (auto simp add: filter_empty_conv)
next
  assume "\<forall>c\<in>set s. (of_char c :: nat) < 128"
  then show "json_decode_string (EscapeJson True s) = Some s"
    by (simp add: EscapeJson_round_trip)
qed

text \<open>
  Claim C4: decoding the output of \<^verbatim>\<open>EscapeJson\<close> gives back the input, for every string. With
  plain \<^verbatim>\<open>char\<close> signed, a byte from 0x80 on is negative: it passes the test \<^verbatim>\<open>c < 0x20\<close>
  and is written as \<^verbatim>\<open>\u\<close> followed by the eight hexadecimal digits of the sign-extended
  value. For the string of the two bytes C3 A9 (the letter e with acute accent in UTF-8) the
  output is \<^verbatim>\<open>\uffffffc3\uffffffa9\<close>, which a decoder reads as U+FFFF followed by \<^verbatim>\<open>ffc3\<close>, twice
  over: not the input. (By \<^verbatim>\<open>EscapeJson_round_trip\<close> the claim holds for the strings of bytes
  below 0x80, and for all strings where plain \<^verbatim>\<open>char\<close> is unsigned; by
  \<^verbatim>\<open>EscapeJson_signed_round_trip_iff\<close> it fails for every other string where it is signed.)
\<close>

theorem EscapeJson_non_ascii_round_trip_fails:
  "EscapeJson True [CHR 0xC3, CHR 0xA9] = CHR 0x5C # ''uffffffc3'' @ CHR 0x5C # ''uffffffa9''
   \<and> json_decode_string (EscapeJson True [CHR 0xC3, CHR 0xA9]) =
       Some ([CHR 0xEF, CHR 0xBF, CHR 0xBF] @ ''ffc3'' @ [CHR 0xEF, CHR 0xBF, CHR 0xBF] @ ''ffa9'')
   \<and> json_decode_string (EscapeJson True [CHR 0xC3, CHR 0xA9]) \<noteq> Some [CHR 0xC3, CHR 0xA9]"
proof -
  have e: "EscapeJson True [CHR 0xC3, CHR 0xA9] = CHR 0x5C # ''uffffffc3'' @ CHR 0x5C # ''uffffffa9''"
    by (simp add: EscapeJson_def escape_char_def char_as_int_def hex_setw4_def hex_digits.simps
        hex_digit_def)
  have d: "json_decode_string (CHR 0x5C # ''uffffffc3'' @ CHR 0x5C # ''uffffffa9'') =
       Some ([CHR 0xEF, CHR 0xBF, CHR 0xBF] @ ''ffc3'' @ [CHR 0xEF, CHR 0xBF, CHR 0xBF] @ ''ffa9'')"
    by (simp add: hex4_def hex_value_def utf8_def simple_escape_def char_of_239 char_of_191)
  show ?thesis
    by (simp only: e d) simp
qed

end
